theory Spec2Isabelle
  imports Complex_Main "HOL-Library.Word" "HOL-Library.Sublist"
begin

section \<open>The conversation client of \<^verbatim>\<open>src/assets/app.js\<close>\<close>

text \<open>
  The script keeps one \<^verbatim>\<open>state\<close> object and a handful of DOM elements, and reacts to
  events: the form's submit, the command buttons, the voice button, the speech
  recogniser's callbacks, the window's load (of which \<^verbatim>\<open>restoreHistory\<close> is the part
  taken here), and the settling of the \<^verbatim>\<open>fetch\<close> that \<^verbatim>\<open>sendCommand\<close> awaits.
  Every handler is a function from the page before the event to the page after it.
  \<^verbatim>\<open>sendCommand\<close> is an async function. It is split where it first awaits into
  \<open>sendCommand\<close>, the part run by the call, and \<open>sendCommand_resume\<close>, the part run
  once \<^verbatim>\<open>fetch\<close> and \<^verbatim>\<open>response.json()\<close> have settled; the function touches nothing
  between its two awaits, and other handlers can run while it waits. What the script
  only hands on is left out: scrolling and \<^verbatim>\<open>console.error\<close>.
\<close>

subsection \<open>JavaScript strings and values\<close>

text \<open>A JavaScript string is a sequence of 16-bit code units.\<close>

type_synonym jsstring = "16 word list"

definition ustr :: "string \<Rightarrow> jsstring" where
  "ustr cs = map (\<lambda>c. of_nat (of_char c)) cs"

text \<open>
  \<^verbatim>\<open>String.prototype.trim\<close> removes the code units of WhiteSpace and LineTerminator
  from both ends.
\<close>

definition is_space :: "16 word \<Rightarrow> bool" where
  "is_space c \<longleftrightarrow>
     c = 0x9 \<or> c = 0xA \<or> c = 0xB \<or> c = 0xC \<or> c = 0xD \<or> c = 0x20 \<or> c = 0xA0 \<or>
     c = 0x1680 \<or> (0x2000 \<le> c \<and> c \<le> 0x200A) \<or> c = 0x2028 \<or> c = 0x2029 \<or>
     c = 0x202F \<or> c = 0x205F \<or> c = 0x3000 \<or> c = 0xFEFF"

definition trim :: "jsstring \<Rightarrow> jsstring" where
  "trim s = rev (dropWhile is_space (rev (dropWhile is_space s)))"

text \<open>Decimal digits of a non-negative integer, as a template literal prints it.\<close>

fun nat_toString :: "nat \<Rightarrow> jsstring" where
  "nat_toString n =
     (if n < 10 then [of_nat (48 + n)]
      else nat_toString (n div 10) @ [of_nat (48 + n mod 10)])"

declare nat_toString.simps [simp del]

text \<open>
  The values the script handles all come out of \<^verbatim>\<open>JSON.parse\<close>, \<^verbatim>\<open>response.json()\<close>
  or its own object literals, so they are JSON values. \<open>JNum\<close> carries the value of a
  finite number. \<open>JObj\<close> lists the own properties of an object, with distinct keys.
  \<^verbatim>\<open>undefined\<close> is \<open>None\<close> of \<open>json option\<close>.
\<close>

datatype json =
    JNull
  | JBool bool
  | JNum rat
  | JStr jsstring
  | JArr "json list"
  | JObj "(jsstring \<times> json) list"

text \<open>
  Property read \<^verbatim>\<open>v.k\<close> on a value that is not \<^verbatim>\<open>null\<close>. The script reads only the keys
  role, content, speaking, reply, actions, intent and speak, none of which a string, a
  number, a boolean or an array has. The read on \<^verbatim>\<open>null\<close> throws, and is a branch of its
  own wherever the script can meet it.
\<close>

fun field :: "json \<Rightarrow> jsstring \<Rightarrow> json option" where
  "field (JObj kvs) k = map_of kvs k"
| "field _ k = None"

fun truthy :: "json \<Rightarrow> bool" where
  "truthy JNull = False"
| "truthy (JBool b) = b"
| "truthy (JNum n) = (n \<noteq> 0)"
| "truthy (JStr s) = (s \<noteq> [])"
| "truthy (JArr xs) = True"
| "truthy (JObj kvs) = True"

fun truthy_opt :: "json option \<Rightarrow> bool" where
  "truthy_opt None = False"
| "truthy_opt (Some v) = truthy v"

text \<open>\<^verbatim>\<open>v || d\<close>, for a \<open>v\<close> that may be \<^verbatim>\<open>undefined\<close>.\<close>

fun or_else :: "json option \<Rightarrow> json \<Rightarrow> json" where
  "or_else None d = d"
| "or_else (Some v) d = (if truthy v then v else d)"

fun join :: "jsstring \<Rightarrow> jsstring list \<Rightarrow> jsstring" where
  "join sep [] = []"
| "join sep [x] = x"
| "join sep (x # y # ys) = x @ sep @ join sep (y # ys)"

text \<open>
  The string conversion of a template literal and of a DOM string argument; \<open>None\<close> when
  it throws a TypeError. How a number prints is the engine's, \<open>num\<close>. An array is joined
  with commas, \<^verbatim>\<open>null\<close> elements printing as nothing, and the conversion of an element
  may throw. An object is converted by its \<^verbatim>\<open>toString\<close>: the one of \<^verbatim>\<open>Object.prototype\<close>
  gives \<^verbatim>\<open>[object Object]\<close>; an own property of that name is a JSON value, which cannot
  be called, and then \<^verbatim>\<open>valueOf\<close> gives no primitive either and the conversion throws.
\<close>

fun ToString :: "(rat \<Rightarrow> jsstring) \<Rightarrow> json \<Rightarrow> jsstring option" where
  "ToString num JNull = Some (ustr ''null'')"
| "ToString num (JBool b) = Some (if b then ustr ''true'' else ustr ''false'')"
| "ToString num (JNum n) = Some (num n)"
| "ToString num (JStr s) = Some s"
| "ToString num (JArr xs) =
     map_option (join (ustr '',''))
       (those (map (\<lambda>x. if x = JNull then Some [] else ToString num x) xs))"
| "ToString num (JObj kvs) =
     (if map_of kvs (ustr ''toString'') = None then Some (ustr ''[object Object]'')
      else None)"

fun ToString_opt :: "(rat \<Rightarrow> jsstring) \<Rightarrow> json option \<Rightarrow> jsstring option" where
  "ToString_opt num None = Some (ustr ''undefined'')"
| "ToString_opt num (Some v) = ToString num v"

text \<open>
  The conversion of a value assigned to \<^verbatim>\<open>textContent\<close>, a nullable DOM string:
  \<^verbatim>\<open>undefined\<close> and \<^verbatim>\<open>null\<close> give the empty text.
\<close>

fun text_of :: "(rat \<Rightarrow> jsstring) \<Rightarrow> json option \<Rightarrow> jsstring option" where
  "text_of num None = Some []"
| "text_of num (Some JNull) = Some []"
| "text_of num (Some v) = ToString num v"

text \<open>\<^verbatim>\<open>xs.slice(-n)\<close>: the last \<open>n\<close> elements, all of them when there are fewer.\<close>

definition slice_last :: "nat \<Rightarrow> 'a list \<Rightarrow> 'a list" where
  "slice_last n xs = drop (length xs - n) xs"

subsection \<open>Exceptions\<close>

datatype exn = Exn (exn_name: jsstring) (exn_message: jsstring)

text \<open>\<^verbatim>\<open>String(error)\<close> of an error object.\<close>

definition exn_toString :: "exn \<Rightarrow> jsstring" where
  "exn_toString e =
     (if exn_name e = [] then exn_message e
      else if exn_message e = [] then exn_name e
      else exn_name e @ ustr '': '' @ exn_message e)"

text \<open>The exceptions the engine and the DOM raise; the wording of their messages is the host's.\<close>

datatype fault =
    Null_property
  | Null_destructure
  | Empty_token
  | Whitespace_token
  | Not_a_child
  | Not_json
  | No_primitive

text \<open>
  A stored string is known to the script only through \<^verbatim>\<open>!raw\<close> and \<^verbatim>\<open>JSON.parse(raw)\<close>:
  it is the JSON text of a value, or a string that is no JSON text (the empty string is
  one).
\<close>

datatype blob = Json_text json | Other_text jsstring

record host =
  recognition_supported :: bool
  synth_present :: bool
  Number_toString :: "rat \<Rightarrow> jsstring"
  fault_message :: "fault \<Rightarrow> jsstring"
  setItem_throws :: "blob \<Rightarrow> bool"
  getItem_throws :: bool

text \<open>The TypeError of a string conversion.\<close>

definition no_primitive :: "host \<Rightarrow> exn" where
  "no_primitive h = Exn (ustr ''TypeError'') (fault_message h No_primitive)"

definition JSON_stringify :: "json \<Rightarrow> blob" where
  "JSON_stringify v = Json_text v"

definition JSON_parse :: "host \<Rightarrow> blob \<Rightarrow> exn + json" where
  "JSON_parse h raw =
     (case raw of
        Json_text v \<Rightarrow> Inr v
      | Other_text t \<Rightarrow> Inl (Exn (ustr ''SyntaxError'') (fault_message h Not_json)))"

subsection \<open>The page\<close>

text \<open>
  An element cloned from the message template: the class tokens added to it, the text of
  its avatar, and the text of its paragraph. \<open>node_id\<close> is the identity of the element,
  which \<^verbatim>\<open>removeChild\<close> goes by.
\<close>

record node =
  node_id :: nat
  node_classes :: "jsstring list"
  node_avatar :: jsstring
  node_content :: jsstring

record recognizer =
  rec_lang :: jsstring
  rec_interimResults :: bool
  rec_continuous :: bool

datatype recognizer_call = Rec_start | Rec_stop

datatype synth_call = Synth_cancel | Synth_speak jsstring

record request =
  req_url :: jsstring
  req_method :: jsstring
  req_content_type :: jsstring
  req_body :: blob

text \<open>
  The first five fields are the script's \<^verbatim>\<open>state\<close> object. Then the DOM: the children
  of \<^verbatim>\<open>#conversation\<close>, the items of the intel list, the status indicator and its copy,
  the input's value, the voice button. Then the storage area, and what has been asked
  of the network, the recogniser and the synthesiser so far. \<open>speak_calls\<close> lists the
  arguments of the calls of \<^verbatim>\<open>speak\<close>.
\<close>

record app =
  history :: "json list"
  isProcessing :: bool
  recognition :: "recognizer option"
  voiceEnabled :: bool
  speechPending :: bool
  conversationEl :: "node list"
  next_node :: nat
  intelEl :: "jsstring list"
  statusIndicator :: jsstring
  statusCopy :: jsstring
  input_value :: jsstring
  voiceToggle_active :: bool
  voiceToggle_disabled :: bool
  voiceToggle_title :: jsstring
  localStorage :: "jsstring \<rightharpoonup> blob"
  fetches :: "request list"
  recognizer_calls :: "recognizer_call list"
  synth_calls :: "synth_call list"
  speak_calls :: "json list"

text \<open>
  The page when the script starts: the \<^verbatim>\<open>state\<close> literal of the script, and the markup's
  status, copy and storage area, which the script does not set.
\<close>

definition page :: "jsstring \<Rightarrow> jsstring \<Rightarrow> (jsstring \<rightharpoonup> blob) \<Rightarrow> app" where
  "page st cp store =
     \<lparr> history = [], isProcessing = False, recognition = None, voiceEnabled = False,
       speechPending = False, conversationEl = [], next_node = 0, intelEl = [],
       statusIndicator = st, statusCopy = cp, input_value = [],
       voiceToggle_active = False, voiceToggle_disabled = False, voiceToggle_title = [],
       localStorage = store, fetches = [], recognizer_calls = [], synth_calls = [],
       speak_calls = [] \<rparr>"

definition updateStatus :: "jsstring \<Rightarrow> jsstring \<Rightarrow> app \<Rightarrow> app" where
  "updateStatus status copy s = s\<lparr>statusIndicator := status, statusCopy := copy\<rparr>"

definition is_ascii_space :: "16 word \<Rightarrow> bool" where
  "is_ascii_space c \<longleftrightarrow> c = 0x9 \<or> c = 0xA \<or> c = 0xC \<or> c = 0xD \<or> c = 0x20"

text \<open>The argument of \<^verbatim>\<open>classList.add(role === "assistant" ? "assistant" : role)\<close>, as a string.\<close>

definition class_token :: "host \<Rightarrow> json option \<Rightarrow> jsstring option" where
  "class_token h role =
     (if role = Some (JStr (ustr ''assistant'')) then Some (ustr ''assistant'')
      else ToString_opt (Number_toString h) role)"

text \<open>
  \<^verbatim>\<open>renderMessage({ role, content, speaking = false })\<close>. Destructuring \<^verbatim>\<open>null\<close> throws;
  \<^verbatim>\<open>classList.add\<close> throws when its argument has no string conversion, on an empty
  token and on one with ASCII whitespace; the assignment to \<^verbatim>\<open>textContent\<close> throws when
  the content has no string conversion. All of this comes before the clone is appended.
  The result is the clone's identity.
\<close>

definition renderMessage :: "host \<Rightarrow> json \<Rightarrow> app \<Rightarrow> exn + (nat \<times> app)" where
  "renderMessage h item s =
     (if item = JNull
      then Inl (Exn (ustr ''TypeError'') (fault_message h Null_destructure))
      else
        let role = field item (ustr ''role'');
            content = field item (ustr ''content'');
            speaking = (case field item (ustr ''speaking'') of
                          None \<Rightarrow> JBool False | Some v \<Rightarrow> v)
        in
          (case class_token h role of
             None \<Rightarrow> Inl (no_primitive h)
           | Some token \<Rightarrow>
               if token = []
               then Inl (Exn (ustr ''SyntaxError'') (fault_message h Empty_token))
               else if list_ex is_ascii_space token
               then Inl (Exn (ustr ''InvalidCharacterError'')
                           (fault_message h Whitespace_token))
               else
                 let thinking = (if isProcessing s \<and> role = Some (JStr (ustr ''assistant''))
                                    \<and> truthy speaking
                                 then [ustr ''thinking''] else []);
                     avatar0 = (if role = Some (JStr (ustr ''user'')) then ustr ''You''
                                else if role = Some (JStr (ustr ''assistant'')) then ustr ''J''
                                else ustr ''SYS'');
                     avatar = (if role = Some (JStr (ustr ''assistant'')) then ustr ''J''
                               else avatar0)
                 in (case text_of (Number_toString h) content of
                       None \<Rightarrow> Inl (no_primitive h)
                     | Some txt \<Rightarrow>
                         Inr (next_node s,
                              s\<lparr>conversationEl := conversationEl s @
                                   [\<lparr> node_id = next_node s,
                                      node_classes = token # thinking,
                                      node_avatar = avatar, node_content = txt \<rparr>],
                                next_node := Suc (next_node s)\<rparr>))))"

text \<open>\<^verbatim>\<open>conversationEl.removeChild(n)\<close> throws when \<open>n\<close> is not a child.\<close>

definition removeChild :: "host \<Rightarrow> nat \<Rightarrow> app \<Rightarrow> exn + app" where
  "removeChild h n s =
     (if n \<in> node_id ` set (conversationEl s)
      then Inr (s\<lparr>conversationEl := filter (\<lambda>c. node_id c \<noteq> n) (conversationEl s)\<rparr>)
      else Inl (Exn (ustr ''NotFoundError'') (fault_message h Not_a_child)))"

text \<open>
  \<^verbatim>\<open>speak(text)\<close>: the page reached, and what the call threw. The utterance is made
  after \<^verbatim>\<open>synth.cancel()\<close>, and its constructor converts the text to a string. The
  choice of a voice among those the host offers, and the rate and pitch of the
  utterance, are left out: the utterance is known by its text.
\<close>

definition speak :: "host \<Rightarrow> json \<Rightarrow> app \<Rightarrow> app \<times> exn option" where
  "speak h txt s =
     (let s1 = s\<lparr>speak_calls := speak_calls s @ [txt]\<rparr>
      in if \<not> synth_present h then (s1, None)
         else
           let s2 = s1\<lparr>synth_calls := synth_calls s1 @ [Synth_cancel]\<rparr>
           in (case ToString (Number_toString h) txt of
                 None \<Rightarrow> (s2, Some (no_primitive h))
               | Some t \<Rightarrow> (s2\<lparr>synth_calls := synth_calls s2 @ [Synth_speak t]\<rparr>, None)))"

text \<open>
  \<^verbatim>\<open>items.forEach(...)\<close> of \<^verbatim>\<open>pushIntel\<close>: one list item after the other, until the
  assignment \<^verbatim>\<open>li.textContent = item\<close> throws.
\<close>

fun forEach_item :: "host \<Rightarrow> json list \<Rightarrow> app \<Rightarrow> app \<times> exn option" where
  "forEach_item h [] s = (s, None)"
| "forEach_item h (item # items) s =
     (case text_of (Number_toString h) (Some item) of
        None \<Rightarrow> (s, Some (no_primitive h))
      | Some t \<Rightarrow> forEach_item h items (s\<lparr>intelEl := intelEl s @ [t]\<rparr>))"

definition pushIntel :: "host \<Rightarrow> json list \<Rightarrow> app \<Rightarrow> app \<times> exn option" where
  "pushIntel h items s =
     (if items = [] then (s, None) else forEach_item h items (s\<lparr>intelEl := []\<rparr>))"

definition storage_key :: jsstring where
  "storage_key = ustr ''jarvis_history''"

definition persistHistory :: "host \<Rightarrow> app \<Rightarrow> app" where
  "persistHistory h s =
     (let payload = JSON_stringify (JArr (slice_last 20 (history s)))
      in if setItem_throws h payload then s
         else s\<lparr>localStorage := (localStorage s)(storage_key \<mapsto> payload)\<rparr>)"

text \<open>
  \<^verbatim>\<open>state.history.forEach((item) => renderMessage(item))\<close>: the page reached, and the
  exception that stopped the loop, if one did.
\<close>

fun forEach_render :: "host \<Rightarrow> json list \<Rightarrow> app \<Rightarrow> app \<times> exn option" where
  "forEach_render h [] s = (s, None)"
| "forEach_render h (item # items) s =
     (case renderMessage h item s of
        Inl e \<Rightarrow> (s, Some e)
      | Inr (n, s') \<Rightarrow> forEach_render h items s')"

text \<open>
  \<^verbatim>\<open>`${entry.role === "user" ? "You" : "Jarvis"}: ${entry.content}`\<close>, for an entry that
  is not \<^verbatim>\<open>null\<close>; \<open>None\<close> when the conversion of the content throws.
\<close>

definition restore_line :: "host \<Rightarrow> json \<Rightarrow> jsstring option" where
  "restore_line h entry =
     map_option
       (\<lambda>c. (if field entry (ustr ''role'') = Some (JStr (ustr ''user''))
              then ustr ''You'' else ustr ''Jarvis'') @ ustr '': '' @ c)
       (ToString_opt (Number_toString h) (field entry (ustr ''content'')))"

definition restoreHistory :: "host \<Rightarrow> app \<Rightarrow> app" where
  "restoreHistory h s =
     (if getItem_throws h then s\<lparr>history := []\<rparr>
      else case localStorage s storage_key of
        None \<Rightarrow> s
      | Some raw \<Rightarrow>
          if raw = Other_text [] then s
          else (case JSON_parse h raw of
            Inl e \<Rightarrow> s\<lparr>history := []\<rparr>
          | Inr parsed \<Rightarrow>
              let s1 = s\<lparr>history := (case parsed of JArr xs \<Rightarrow> xs | _ \<Rightarrow> [])\<rparr>
              in (case forEach_render h (history s1) s1 of
                   (s2, Some e) \<Rightarrow> s2\<lparr>history := []\<rparr>
                 | (s2, None) \<Rightarrow>
                     if history s2 \<noteq> []
                     then (case those (map (restore_line h) (slice_last 3 (history s2))) of
                             None \<Rightarrow> s2\<lparr>history := []\<rparr>
                           | Some lines \<Rightarrow>
                               (case pushIntel h
                                  (map JStr
                                     ([ustr ''Historical context restored.'',
                                       ustr ''Loaded ''
                                         @ nat_toString (length (history s2))
                                         @ ustr '' transmissions.'',
                                       ustr ''Jarvis is ready to continue the mission.'']
                                      @ lines)) s2 of
                                  (s3, Some e) \<Rightarrow> s3\<lparr>history := []\<rparr>
                                | (s3, None) \<Rightarrow> s3))
                     else s2)))"

subsection \<open>Voice input\<close>

text \<open>
  The recogniser's \<^verbatim>\<open>start()\<close> and \<^verbatim>\<open>stop()\<close> are recorded as calls; what the engine
  does with them comes back as the events below.
\<close>

definition toggleVoiceInput :: "host \<Rightarrow> app \<Rightarrow> app" where
  "toggleVoiceInput h s =
     (if \<not> recognition_supported h
      then s\<lparr>voiceToggle_disabled := True,
             voiceToggle_title := ustr ''Voice recognition not supported in this browser.''\<rparr>
      else
        let s1 = (if recognition s = None
                  then s\<lparr>recognition := Some \<lparr> rec_lang = ustr ''en-US'',
                           rec_interimResults = False, rec_continuous = False \<rparr>\<rparr>
                  else s)
        in if voiceEnabled s1
           then updateStatus (ustr ''idle'') (ustr ''Voice Link Offline'')
                  (s1\<lparr>recognizer_calls := recognizer_calls s1 @ [Rec_stop],
                      voiceEnabled := False, voiceToggle_active := False\<rparr>)
           else s1\<lparr>recognizer_calls := recognizer_calls s1 @ [Rec_start],
                   voiceEnabled := True\<rparr>)"

definition recognition_onstart :: "app \<Rightarrow> app" where
  "recognition_onstart s =
     updateStatus (ustr ''thinking'') (ustr ''Listening'') (s\<lparr>voiceToggle_active := True\<rparr>)"

definition recognition_onend :: "app \<Rightarrow> app" where
  "recognition_onend s =
     (let s1 = s\<lparr>voiceToggle_active := False\<rparr>
      in if \<not> isProcessing s1 then updateStatus (ustr ''idle'') (ustr ''Systems Idle'') s1
         else s1)"

definition recognition_onerror :: "app \<Rightarrow> app" where
  "recognition_onerror s =
     (let s1 = s\<lparr>voiceToggle_active := False\<rparr>
      in if \<not> isProcessing s1 then updateStatus (ustr ''idle'') (ustr ''Systems Idle'') s1
         else s1)"

subsection \<open>The request\<close>

text \<open>How a call of the async \<^verbatim>\<open>sendCommand\<close> leaves the caller.\<close>

datatype call =
    Returned
  | Threw exn
  | Awaiting nat

text \<open>
  The settling of \<^verbatim>\<open>fetch\<close> and, for a response, of \<^verbatim>\<open>response.json()\<close>;
  \<^verbatim>\<open>response.ok\<close> is a status from 200 to 299.
\<close>

datatype response = Response (status: nat) (json_body: "exn + json")

datatype fetch_result = Fetch_rejected exn | Fetch_resolved response

definition ok :: "response \<Rightarrow> bool" where
  "ok r \<longleftrightarrow> 200 \<le> status r \<and> status r \<le> 299"

text \<open>\<^verbatim>\<open>new Error(`Request failed with status ${response.status}`)\<close>\<close>

definition http_error :: "response \<Rightarrow> exn" where
  "http_error resp =
     Exn (ustr ''Error'') (ustr ''Request failed with status '' @ nat_toString (status resp))"

text \<open>\<^verbatim>\<open>error.message || String(error)\<close>\<close>

definition error_description :: "exn \<Rightarrow> jsstring" where
  "error_description e = (if exn_message e \<noteq> [] then exn_message e else exn_toString e)"

definition placeholder_content :: jsstring where
  "placeholder_content = [0x2022, 0x2022, 0x2022]"

definition user_payload :: "jsstring \<Rightarrow> json" where
  "user_payload trimmed =
     JObj [(ustr ''role'', JStr (ustr ''user'')), (ustr ''content'', JStr trimmed)]"

definition assistant_payload :: "json \<Rightarrow> json" where
  "assistant_payload content =
     JObj [(ustr ''role'', JStr (ustr ''assistant'')), (ustr ''content'', content)]"

definition placeholder_message :: json where
  "placeholder_message =
     JObj [(ustr ''role'', JStr (ustr ''assistant'')),
           (ustr ''content'', JStr placeholder_content),
           (ustr ''speaking'', JBool True)]"

definition apology :: jsstring where
  "apology =
     ustr ''Systems encountered turbulence processing that request. Review logs and try again.''"

definition apology_message :: json where
  "apology_message =
     JObj [(ustr ''role'', JStr (ustr ''assistant'')), (ustr ''content'', JStr apology)]"

definition fallback_reply :: jsstring where
  "fallback_reply = ustr ''I'm here.''"

definition assistant_request :: "jsstring \<Rightarrow> json list \<Rightarrow> request" where
  "assistant_request trimmed hist =
     \<lparr> req_url = ustr ''/api/assistant'', req_method = ustr ''POST'',
       req_content_type = ustr ''application/json'',
       req_body = JSON_stringify
         (JObj [(ustr ''message'', JStr trimmed),
                (ustr ''history'', JArr (slice_last 12 hist))]) \<rparr>"

text \<open>
  \<^verbatim>\<open>sendCommand(message)\<close> up to its \<^verbatim>\<open>await fetch(...)\<close>. \<open>Awaiting p\<close> carries what
  the rest of the function keeps of its locals, the placeholder \<open>p\<close>.
\<close>

definition sendCommand :: "host \<Rightarrow> jsstring \<Rightarrow> app \<Rightarrow> app \<times> call" where
  "sendCommand h message s =
     (if message = [] \<or> isProcessing s then (s, Returned)
      else
        let trimmed = trim message
        in if trimmed = [] then (s, Returned)
           else
             let s1 = updateStatus (ustr ''thinking'') (ustr ''Processing'')
                        (s\<lparr>isProcessing := True\<rparr>);
                 userPayload = user_payload trimmed;
                 s2 = s1\<lparr>history := history s1 @ [userPayload]\<rparr>
             in case renderMessage h userPayload s2 of
                  Inl e \<Rightarrow> (s2, Threw e)
                | Inr (u, s3) \<Rightarrow>
                    let s4 = persistHistory h s3;
                        s5 = s4\<lparr>input_value := []\<rparr>
                    in (case renderMessage h placeholder_message s5 of
                         Inl e \<Rightarrow> (s5, Threw e)
                       | Inr (p, s6) \<Rightarrow>
                           (s6\<lparr>fetches := fetches s6
                                  @ [assistant_request trimmed (history s6)]\<rparr>,
                            Awaiting p)))"

text \<open>\<^verbatim>\<open>if (Array.isArray(data.actions) && data.actions.length) pushIntel(data.actions)\<close>\<close>

definition show_actions :: "host \<Rightarrow> json option \<Rightarrow> app \<Rightarrow> app \<times> exn option" where
  "show_actions h actions s =
     (case actions of
        Some (JArr xs) \<Rightarrow> if xs \<noteq> [] then pushIntel h xs s else (s, None)
      | _ \<Rightarrow> (s, None))"

text \<open>\<^verbatim>\<open>if (data.intent) statusCopy.textContent = `Intent: ${data.intent}`\<close>\<close>

definition show_intent :: "host \<Rightarrow> json option \<Rightarrow> app \<Rightarrow> app \<times> exn option" where
  "show_intent h intent s =
     (if truthy_opt intent
      then (case ToString_opt (Number_toString h) intent of
              None \<Rightarrow> (s, Some (no_primitive h))
            | Some t \<Rightarrow> (s\<lparr>statusCopy := ustr ''Intent: '' @ t\<rparr>, None))
      else (s, None))"

text \<open>\<^verbatim>\<open>if (data.speak !== false) speak(assistantPayload.content)\<close>\<close>

definition speak_reply :: "host \<Rightarrow> json option \<Rightarrow> json \<Rightarrow> app \<Rightarrow> app \<times> exn option" where
  "speak_reply h flag content s =
     (if flag \<noteq> Some (JBool False) then speak h content s else (s, None))"

text \<open>
  The three statements that follow the second \<^verbatim>\<open>persistHistory()\<close> of the \<^verbatim>\<open>try\<close>
  body, each run only when the one before it has not thrown.
\<close>

definition after_reply :: "host \<Rightarrow> json \<Rightarrow> json \<Rightarrow> app \<Rightarrow> app \<times> exn option" where
  "after_reply h data content s =
     (case show_actions h (field data (ustr ''actions'')) s of
        (s5, Some e) \<Rightarrow> (s5, Some e)
      | (s5, None) \<Rightarrow>
          (case show_intent h (field data (ustr ''intent'')) s5 of
             (s6, Some e) \<Rightarrow> (s6, Some e)
           | (s6, None) \<Rightarrow> speak_reply h (field data (ustr ''speak'')) content s6))"

text \<open>The body of \<^verbatim>\<open>try\<close> after the fetch has settled: the page reached, and what it threw.\<close>

definition try_block :: "host \<Rightarrow> nat \<Rightarrow> fetch_result \<Rightarrow> app \<Rightarrow> app \<times> exn option" where
  "try_block h p r s =
     (case r of
        Fetch_rejected e \<Rightarrow> (s, Some e)
      | Fetch_resolved resp \<Rightarrow>
          if \<not> ok resp
          then (s, Some (http_error resp))
          else (case json_body resp of
            Inl e \<Rightarrow> (s, Some e)
          | Inr data \<Rightarrow>
              if data = JNull
              then (s, Some (Exn (ustr ''TypeError'') (fault_message h Null_property)))
              else
                let content = or_else (field data (ustr ''reply'')) (JStr fallback_reply);
                    assistantPayload = assistant_payload content;
                    s1 = s\<lparr>history := history s @ [assistantPayload]\<rparr>
                in (case removeChild h p s1 of
                     Inl e \<Rightarrow> (s1, Some e)
                   | Inr s2 \<Rightarrow>
                       (case renderMessage h assistantPayload s2 of
                          Inl e \<Rightarrow> (s2, Some e)
                        | Inr (a, s3) \<Rightarrow>
                            after_reply h data content (persistHistory h s3)))))"

definition catch_block :: "host \<Rightarrow> nat \<Rightarrow> exn \<Rightarrow> app \<Rightarrow> app \<times> exn option" where
  "catch_block h p e s =
     (case removeChild h p s of
        Inl e' \<Rightarrow> (s, Some e')
      | Inr s1 \<Rightarrow>
          (case renderMessage h apology_message s1 of
             Inl e' \<Rightarrow> (s1, Some e')
           | Inr (a, s2) \<Rightarrow>
               pushIntel h
                 [JStr (ustr ''Error encountered.''), JStr (error_description e)] s2))"

definition finally_block :: "app \<Rightarrow> app" where
  "finally_block s =
     (let s1 = s\<lparr>isProcessing := False\<rparr>
      in if voiceEnabled s1 then updateStatus (ustr ''thinking'') (ustr ''Listening'') s1
         else updateStatus (ustr ''idle'') (ustr ''Systems Idle'') s1)"

text \<open>
  The rest of \<^verbatim>\<open>sendCommand\<close>, run on the page as it is when the fetch has settled:
  \<^verbatim>\<open>try\<close>, \<^verbatim>\<open>catch\<close> when the body threw, \<^verbatim>\<open>finally\<close> in every case. The second
  component is the exception the call ends with, if \<^verbatim>\<open>catch\<close> threw one.
\<close>

definition sendCommand_resume :: "host \<Rightarrow> nat \<Rightarrow> fetch_result \<Rightarrow> app \<Rightarrow> app \<times> exn option" where
  "sendCommand_resume h p r s =
     (case try_block h p r s of
        (s1, None) \<Rightarrow> (finally_block s1, None)
      | (s1, Some e) \<Rightarrow>
          (case catch_block h p e s1 of (s2, e') \<Rightarrow> (finally_block s2, e')))"

text \<open>
  The form's submit handler, and the two handlers that go through it: the recogniser's
  result and a click on a button that carries a command.
\<close>

definition form_submit :: "host \<Rightarrow> app \<Rightarrow> app \<times> call" where
  "form_submit h s = sendCommand h (input_value s) s"

definition recognition_onresult :: "host \<Rightarrow> jsstring \<Rightarrow> app \<Rightarrow> app \<times> call" where
  "recognition_onresult h heard s =
     (let transcript = trim heard
      in if transcript \<noteq> [] then form_submit h (s\<lparr>input_value := transcript\<rparr>)
         else (s, Returned))"

definition command_click :: "host \<Rightarrow> jsstring \<Rightarrow> app \<Rightarrow> app \<times> call" where
  "command_click h command s = form_submit h (s\<lparr>input_value := command\<rparr>)"

subsection \<open>Notions the properties are stated with\<close>

text \<open>Element identities handed out so far are below the next one.\<close>

definition ids_fresh :: "app \<Rightarrow> bool" where
  "ids_fresh s \<longleftrightarrow> list_all (\<lambda>c. node_id c < next_node s) (conversationEl s)"

text \<open>An entry that \<^verbatim>\<open>renderMessage\<close> renders without throwing.\<close>

definition replayable :: "host \<Rightarrow> json \<Rightarrow> bool" where
  "replayable h item \<longleftrightarrow>
     item \<noteq> JNull \<and>
     (case class_token h (field item (ustr ''role'')) of
        None \<Rightarrow> False
      | Some token \<Rightarrow> token \<noteq> [] \<and> \<not> list_ex is_ascii_space token) \<and>
     text_of (Number_toString h) (field item (ustr ''content'')) \<noteq> None"

text \<open>
  The data of a settled fetch that takes \<^verbatim>\<open>sendCommand\<close> past its \<^verbatim>\<open>throw\<close> and past
  the read of \<^verbatim>\<open>data.reply\<close>: an ok response whose body is JSON and not \<^verbatim>\<open>null\<close>.
\<close>

definition success_data :: "fetch_result \<Rightarrow> json option" where
  "success_data r =
     (case r of
        Fetch_rejected e \<Rightarrow> None
      | Fetch_resolved resp \<Rightarrow>
          if \<not> ok resp then None
          else (case json_body resp of
                  Inl e \<Rightarrow> None
                | Inr data \<Rightarrow> if data = JNull then None else Some data))"

text \<open>
  Data that the success path shows without throwing: the content of the assistant's
  entry, every item of a non-empty \<open>actions\<close> array and a truthy \<open>intent\<close> have a string
  conversion.
\<close>

definition actions_shown :: "host \<Rightarrow> json option \<Rightarrow> bool" where
  "actions_shown h actions \<longleftrightarrow>
     (case actions of
        Some (JArr xs) \<Rightarrow> list_all (\<lambda>i. text_of (Number_toString h) (Some i) \<noteq> None) xs
      | _ \<Rightarrow> True)"

definition intent_shown :: "host \<Rightarrow> json option \<Rightarrow> bool" where
  "intent_shown h intent \<longleftrightarrow>
     \<not> truthy_opt intent \<or> ToString_opt (Number_toString h) intent \<noteq> None"

definition presentable :: "host \<Rightarrow> json \<Rightarrow> bool" where
  "presentable h data \<longleftrightarrow>
     text_of (Number_toString h)
       (Some (or_else (field data (ustr ''reply'')) (JStr fallback_reply))) \<noteq> None \<and>
     actions_shown h (field data (ustr ''actions'')) \<and>
     intent_shown h (field data (ustr ''intent''))"

text \<open>
  What showing notices, status copy and speech leaves alone.
\<close>

definition backstage ::
  "app \<Rightarrow> json list \<times> bool \<times> bool \<times> node list \<times> nat \<times> (jsstring \<rightharpoonup> blob) \<times> request list"
where
  "backstage s =
     (history s, isProcessing s, voiceEnabled s, conversationEl s, next_node s,
      localStorage s, fetches s)"

text \<open>An entry whose content is the placeholder's.\<close>

definition placeholder_like :: "json \<Rightarrow> bool" where
  "placeholder_like entry \<longleftrightarrow>
     field entry (ustr ''content'') = Some (JStr placeholder_content)"

text \<open>The entries of the array stored under the key, if an array is stored there.\<close>

definition stored_entries :: "app \<Rightarrow> json list" where
  "stored_entries s =
     (case localStorage s storage_key of
        Some (Json_text (JArr xs)) \<Rightarrow> xs
      | _ \<Rightarrow> [])"

text \<open>
  The pages on which the fetch of the call \<open>sendCommand h message s0\<close> can settle:
  \<open>isProcessing\<close> is set and history, conversation, notices, storage area, requests
  and speech are as the call left them. Status, copy, input value and the voice fields
  are free: the handlers of the voice button and of the recogniser, and calls of
  \<open>sendCommand\<close> that return at the guard, change nothing else.
\<close>

definition in_flight :: "host \<Rightarrow> jsstring \<Rightarrow> app \<Rightarrow> nat \<Rightarrow> app \<Rightarrow> bool" where
  "in_flight h message s0 p s \<longleftrightarrow>
     (case sendCommand h message s0 of
        (s1, c) \<Rightarrow>
          c = Awaiting p \<and> isProcessing s \<and> history s = history s1 \<and>
          conversationEl s = conversationEl s1 \<and> next_node s = next_node s1 \<and>
          intelEl s = intelEl s1 \<and> localStorage s = localStorage s1 \<and>
          fetches s = fetches s1 \<and> speak_calls s = speak_calls s1 \<and>
          synth_calls s = synth_calls s1)"

subsection \<open>A host and a page to run the script on\<close>

text \<open>
  A browser with speech recognition and synthesis and a working storage area. The runs
  below print no number and read no message of the host.
\<close>

definition host0 :: host where
  "host0 =
     \<lparr> recognition_supported = True, synth_present = True,
       Number_toString = (\<lambda>q. nat_toString (nat \<lfloor>q\<rfloor>)),
       fault_message = (\<lambda>f. ustr ''(host message)''),
       setItem_throws = (\<lambda>b. False), getItem_throws = False \<rparr>"

definition page0 :: app where
  "page0 = page (ustr ''idle'') (ustr ''Systems Idle'') Map.empty"

text \<open>
  The voice button is pressed on the fresh page, then ``status report'' is submitted:
  \<open>asked_page\<close> is the page while the fetch is out. \<open>typed_page\<close> is the same without
  the voice button.
\<close>

definition listening_page :: app where
  "listening_page = toggleVoiceInput host0 page0"

definition asked_page :: app where
  "asked_page = fst (sendCommand host0 (ustr ''status report'') listening_page)"

definition typed_page :: app where
  "typed_page = fst (sendCommand host0 (ustr ''status report'') page0)"

text \<open>
  Ways the fetch can settle: a reply with an intent, an empty reply, a reply whose intent
  is an object with a \<^verbatim>\<open>toString\<close> property, and an HTTP 500.
\<close>

definition nominal_reply :: fetch_result where
  "nominal_reply =
     Fetch_resolved (Response 200
       (Inr (JObj [(ustr ''reply'', JStr (ustr ''All systems nominal.'')),
                   (ustr ''intent'', JStr (ustr ''status''))])))"

definition empty_reply :: fetch_result where
  "empty_reply = Fetch_resolved (Response 200 (Inr (JObj [(ustr ''reply'', JStr [])])))"

definition stubborn_data :: json where
  "stubborn_data =
     JObj [(ustr ''reply'', JStr (ustr ''All systems nominal.'')),
           (ustr ''intent'', JObj [(ustr ''toString'', JStr (ustr ''x''))])]"

definition stubborn_reply :: fetch_result where
  "stubborn_reply = Fetch_resolved (Response 200 (Inr stubborn_data))"


text \<open>The user submits the very text of the placeholder.\<close>

definition echo_page :: app where
  "echo_page = fst (sendCommand host0 placeholder_content page0)"

text \<open>
  Fresh pages over a store that holds \<^verbatim>\<open>[5]\<close>, over one that holds a user's and an
  assistant's message, and over one that holds a user's message whose content is an
  object with a \<^verbatim>\<open>toString\<close> property.
\<close>

definition stray_page :: app where
  "stray_page = page0\<lparr>localStorage := [storage_key \<mapsto> Json_text (JArr [JNum 5])]\<rparr>"

definition kept_page :: app where
  "kept_page = page0\<lparr>localStorage :=
     [storage_key \<mapsto> Json_text (JArr [user_payload (ustr ''status report''),
                                         assistant_payload (JStr (ustr ''All systems nominal.''))])]\<rparr>"

definition opaque_page :: app where
  "opaque_page = page0\<lparr>localStorage :=
     [storage_key \<mapsto> Json_text (JArr
        [JObj [(ustr ''role'', JStr (ustr ''user'')),
               (ustr ''content'', JObj [(ustr ''toString'', JStr (ustr ''x''))])]])]\<rparr>"

text \<open>A page with 25 entries in its history.\<close>

definition busy_page :: app where
  "busy_page = page0\<lparr>history := map (\<lambda>i. user_payload (nat_toString i)) [0..<25]\<rparr>"

section \<open>Strings, rendering and the two halves of \<open>sendCommand\<close>\<close>

lemma unit_inj: "(of_nat (of_char a) :: 16 word) = of_nat (of_char b) \<longleftrightarrow> a = b"
proof -
  have "of_char a < (2::nat) ^ 16" "of_char b < (2::nat) ^ 16"
    by (rule less_trans [OF nat_of_char_less_256], simp)+
  hence "take_bit 16 (of_char a :: nat) = of_char a" "take_bit 16 (of_char b :: nat) = of_char b"
    by (simp_all add: take_bit_nat_eq_self)
  thus ?thesis
    by (simp add: word_of_nat_eq_iff)
qed

lemma ustr_eq_iff [simp]: "ustr a = ustr b \<longleftrightarrow> a = b"
proof (induction a arbitrary: b)
  case Nil
  then show ?case by (auto simp: ustr_def)
next
  case (Cons x xs)
  then show ?case by (cases b) (auto simp: ustr_def unit_inj)
qed

lemma ustr_Nil_iff [simp]: "ustr a = [] \<longleftrightarrow> a = []" "[] = ustr a \<longleftrightarrow> a = []"
  by (auto simp: ustr_def)

lemma plain_tokens [simp]:
  "\<not> list_ex is_ascii_space (ustr ''user'')"
  "\<not> list_ex is_ascii_space (ustr ''assistant'')"
  "\<not> list_ex is_ascii_space (ustr ''undefined'')"
  by (simp_all add: ustr_def is_ascii_space_def)

lemma renderMessage_user:
  "renderMessage h (user_payload t) s =
     Inr (next_node s,
          s\<lparr>conversationEl := conversationEl s @
               [\<lparr> node_id = next_node s, node_classes = [ustr ''user''],
                  node_avatar = ustr ''You'', node_content = t \<rparr>],
            next_node := Suc (next_node s)\<rparr>)"
  by (simp add: renderMessage_def user_payload_def class_token_def)

lemma renderMessage_assistant:
  "renderMessage h (assistant_payload c) s =
     (case text_of (Number_toString h) (Some c) of
        None \<Rightarrow> Inl (no_primitive h)
      | Some t \<Rightarrow>
          Inr (next_node s,
               s\<lparr>conversationEl := conversationEl s @
                    [\<lparr> node_id = next_node s, node_classes = [ustr ''assistant''],
                       node_avatar = ustr ''J'', node_content = t \<rparr>],
                 next_node := Suc (next_node s)\<rparr>))"
  by (simp add: renderMessage_def assistant_payload_def class_token_def)

lemma renderMessage_placeholder:
  "renderMessage h placeholder_message s =
     Inr (next_node s,
          s\<lparr>conversationEl := conversationEl s @
               [\<lparr> node_id = next_node s,
                  node_classes = ustr ''assistant'' #
                    (if isProcessing s then [ustr ''thinking''] else []),
                  node_avatar = ustr ''J'',
                  node_content = placeholder_content \<rparr>],
            next_node := Suc (next_node s)\<rparr>)"
  by (simp add: renderMessage_def placeholder_message_def class_token_def)

lemma renderMessage_apology:
  "renderMessage h apology_message s =
     Inr (next_node s,
          s\<lparr>conversationEl := conversationEl s @
               [\<lparr> node_id = next_node s, node_classes = [ustr ''assistant''],
                  node_avatar = ustr ''J'', node_content = apology \<rparr>],
            next_node := Suc (next_node s)\<rparr>)"
  by (simp add: renderMessage_def apology_message_def class_token_def)

lemma trim_Nil_iff: "trim m = [] \<longleftrightarrow> (\<forall>c\<in>set m. is_space c)"
proof
  assume "trim m = []"
  hence all: "\<forall>x\<in>set (dropWhile is_space m). is_space x"
    by (simp add: trim_def)
  have "dropWhile is_space m = []"
  proof (rule ccontr)
    assume ne: "dropWhile is_space m \<noteq> []"
    hence "\<not> is_space (hd (dropWhile is_space m))"
      by (rule hd_dropWhile)
    moreover have "hd (dropWhile is_space m) \<in> set (dropWhile is_space m)"
      using ne by simp
    ultimately show False using all by blast
  qed
  thus "\<forall>c\<in>set m. is_space c" by simp
next
  assume "\<forall>c\<in>set m. is_space c"
  thus "trim m = []" by (auto simp: trim_def dest: set_dropWhileD)
qed

lemma trim_Nil [simp]: "trim [] = []"
  by (simp add: trim_def)

text \<open>What a call that passes the guard does, in one equation.\<close>

lemma sendCommand_started:
  assumes "\<not> isProcessing s" and "trim m \<noteq> []"
  shows "sendCommand h m s =
    (let s3 = s\<lparr>isProcessing := True, statusIndicator := ustr ''thinking'',
                 statusCopy := ustr ''Processing'',
                 history := history s @ [user_payload (trim m)],
                 conversationEl := conversationEl s @
                   [\<lparr> node_id = next_node s, node_classes = [ustr ''user''],
                      node_avatar = ustr ''You'', node_content = trim m \<rparr>],
                 next_node := Suc (next_node s)\<rparr>;
         s5 = (persistHistory h s3)\<lparr>input_value := []\<rparr>
     in (s5\<lparr>conversationEl := conversationEl s5 @
               [\<lparr> node_id = next_node s5,
                  node_classes = [ustr ''assistant'', ustr ''thinking''],
                  node_avatar = ustr ''J'',
                  node_content = placeholder_content \<rparr>],
             next_node := Suc (next_node s5),
             fetches := fetches s5 @ [assistant_request (trim m) (history s5)]\<rparr>,
         Awaiting (next_node s5)))"
proof -
  from assms(2) have "m \<noteq> []" by auto
  with assms show ?thesis
    by (simp add: sendCommand_def renderMessage_user renderMessage_placeholder Let_def
        updateStatus_def persistHistory_def)
qed


lemma sendCommand_busy: "isProcessing s \<Longrightarrow> sendCommand h m s = (s, Returned)"
  by (simp add: sendCommand_def)

lemma sendCommand_blank: "trim m = [] \<Longrightarrow> sendCommand h m s = (s, Returned)"
  by (simp add: sendCommand_def)

lemma awaiting_guard:
  assumes "sendCommand h m s = (s', Awaiting p)"
  shows "\<not> isProcessing s" and "trim m \<noteq> []"
  using assms sendCommand_busy [of s h m] sendCommand_blank [of m h s] by auto

lemma slice_last_suffix: "suffix (slice_last n xs) xs"
  by (simp add: slice_last_def suffix_drop)

lemma length_slice_last: "length (slice_last n xs) = min n (length xs)"
  by (simp add: slice_last_def)

lemma set_slice_last: "set (slice_last n xs) \<subseteq> set xs"
  by (simp add: slice_last_def set_drop_subset)

lemma success_dataD:
  assumes "success_data r = Some data"
  obtains st where "r = Fetch_resolved (Response st (Inr data))" and "200 \<le> st" and "st \<le> 299"
    and "data \<noteq> JNull"
  using assms
  by (cases r; simp add: success_data_def ok_def split: if_splits sum.splits)
     (metis response.collapse)



lemma try_block_failure:
  "success_data r = None \<Longrightarrow> \<exists>e. try_block h p r s = (s, Some e)"
  by (auto simp: success_data_def try_block_def split: fetch_result.splits sum.splits if_splits)

lemma removeChild_present:
  "p \<in> node_id ` set (conversationEl s) \<Longrightarrow>
   removeChild h p s = Inr (s\<lparr>conversationEl := filter (\<lambda>c. node_id c \<noteq> p) (conversationEl s)\<rparr>)"
  by (simp add: removeChild_def)

text \<open>The steps that show something, one by one.\<close>

lemma forEach_item_strings:
  "forEach_item h (map JStr xs) s = (s\<lparr>intelEl := intelEl s @ xs\<rparr>, None)"
  by (induction xs arbitrary: s) simp_all

lemma pushIntel_strings:
  "xs \<noteq> [] \<Longrightarrow> pushIntel h (map JStr xs) s = (s\<lparr>intelEl := xs\<rparr>, None)"
  by (simp add: pushIntel_def forEach_item_strings)

lemma forEach_item_backstage:
  "backstage (fst (forEach_item h items s)) = backstage s \<and>
   speak_calls (fst (forEach_item h items s)) = speak_calls s"
  by (induction items arbitrary: s) (simp_all add: backstage_def split: option.splits)

lemma forEach_item_throws:
  "snd (forEach_item h items s) = None \<longleftrightarrow>
     list_all (\<lambda>i. text_of (Number_toString h) (Some i) \<noteq> None) items"
  by (induction items arbitrary: s) (auto split: option.splits)

lemma show_actions_backstage:
  "backstage (fst (show_actions h a s)) = backstage s \<and>
   speak_calls (fst (show_actions h a s)) = speak_calls s"
proof -
  have "backstage (s\<lparr>intelEl := []\<rparr>) = backstage s" "speak_calls (s\<lparr>intelEl := []\<rparr>) = speak_calls s"
    by (simp_all add: backstage_def)
  thus ?thesis
    using forEach_item_backstage [of h _ "s\<lparr>intelEl := []\<rparr>"]
    by (simp add: show_actions_def pushIntel_def split: option.splits json.splits)
qed

lemma show_actions_throws: "snd (show_actions h a s) = None \<longleftrightarrow> actions_shown h a"
  by (simp add: show_actions_def actions_shown_def pushIntel_def forEach_item_throws
      split: option.splits json.splits)

lemma show_intent_backstage:
  "backstage (fst (show_intent h i s)) = backstage s \<and>
   speak_calls (fst (show_intent h i s)) = speak_calls s"
  by (simp add: show_intent_def backstage_def split: option.splits)

lemma show_intent_throws: "snd (show_intent h i s) = None \<longleftrightarrow> intent_shown h i"
  by (simp add: show_intent_def intent_shown_def split: option.splits)

lemma speak_reply_backstage:
  "backstage (fst (speak_reply h flag txt s)) = backstage s \<and>
   speak_calls (fst (speak_reply h flag txt s))
     = speak_calls s @ (if flag \<noteq> Some (JBool False) then [txt] else [])"
  by (simp add: speak_reply_def speak_def backstage_def Let_def split: option.splits)

lemma after_reply_backstage:
  "backstage (fst (after_reply h data content s)) = backstage s \<and>
   speak_calls (fst (after_reply h data content s))
     = speak_calls s @
       (if actions_shown h (field data (ustr ''actions'')) \<and>
           intent_shown h (field data (ustr ''intent'')) \<and>
           field data (ustr ''speak'') \<noteq> Some (JBool False)
        then [content] else [])"
proof -
  obtain s5 x where a: "show_actions h (field data (ustr ''actions'')) s = (s5, x)"
    by (cases "show_actions h (field data (ustr ''actions'')) s")
  obtain s6 y where i: "show_intent h (field data (ustr ''intent'')) s5 = (s6, y)"
    by (cases "show_intent h (field data (ustr ''intent'')) s5")
  have a': "backstage s5 = backstage s" "speak_calls s5 = speak_calls s"
    "x = None \<longleftrightarrow> actions_shown h (field data (ustr ''actions''))"
    using show_actions_backstage [of h "field data (ustr ''actions'')" s]
      show_actions_throws [of h "field data (ustr ''actions'')" s] a by simp_all
  have i': "backstage s6 = backstage s5" "speak_calls s6 = speak_calls s5"
    "y = None \<longleftrightarrow> intent_shown h (field data (ustr ''intent''))"
    using show_intent_backstage [of h "field data (ustr ''intent'')" s5]
      show_intent_throws [of h "field data (ustr ''intent'')" s5] i by simp_all
  show ?thesis
  proof (cases x)
    case (Some e)
    with a a' show ?thesis by (simp add: after_reply_def)
  next
    case None
    note x = this
    show ?thesis
    proof (cases y)
      case (Some e)
      with a i a' i' x show ?thesis by (simp add: after_reply_def)
    next
      case None
      with a i a' i' x
        speak_reply_backstage [of h "field data (ustr ''speak'')" content s6]
      show ?thesis by (simp add: after_reply_def)
    qed
  qed
qed

lemma persistHistory_update:
  "persistHistory h s =
     s\<lparr>localStorage :=
         (if setItem_throws h (Json_text (JArr (slice_last 20 (history s))))
          then localStorage s
          else (localStorage s)(storage_key \<mapsto> Json_text (JArr (slice_last 20 (history s)))))\<rparr>"
  by (simp add: persistHistory_def Let_def JSON_stringify_def)

lemma finally_block_update:
  "finally_block s =
     s\<lparr>isProcessing := False,
        statusIndicator := (if voiceEnabled s then ustr ''thinking'' else ustr ''idle''),
        statusCopy := (if voiceEnabled s then ustr ''Listening'' else ustr ''Systems Idle'')\<rparr>"
  by (simp add: finally_block_def updateStatus_def Let_def)

text \<open>The \<^verbatim>\<open>try\<close> body on the data of an ok response, by what happens to the placeholder
  and to the content.\<close>

lemma try_block_data:
  assumes "success_data r = Some data"
  shows "try_block h p r s =
    (let content = or_else (field data (ustr ''reply'')) (JStr fallback_reply);
         s1 = s\<lparr>history := history s @ [assistant_payload content]\<rparr>
     in (case removeChild h p s1 of
           Inl e \<Rightarrow> (s1, Some e)
         | Inr s2 \<Rightarrow>
             (case renderMessage h (assistant_payload content) s2 of
                Inl e \<Rightarrow> (s2, Some e)
              | Inr (a, s3) \<Rightarrow> after_reply h data content (persistHistory h s3))))"
proof -
  from assms obtain st where r: "r = Fetch_resolved (Response st (Inr data))"
    and "ok (Response st (Inr data))" and "data \<noteq> JNull"
    by (auto elim!: success_dataD simp: ok_def)
  thus ?thesis
    by (simp add: try_block_def Let_def)
qed

lemma try_block_absent:
  assumes "success_data r = Some data" and "p \<notin> node_id ` set (conversationEl s)"
  shows "\<exists>e. try_block h p r s =
    (s\<lparr>history := history s @
         [assistant_payload (or_else (field data (ustr ''reply'')) (JStr fallback_reply))]\<rparr>,
     Some e)"
  using assms(2) by (simp add: try_block_data [OF assms(1)] Let_def removeChild_def)

lemma try_block_opaque:
  assumes "success_data r = Some data" and "p \<in> node_id ` set (conversationEl s)"
    and "text_of (Number_toString h)
           (Some (or_else (field data (ustr ''reply'')) (JStr fallback_reply))) = None"
  shows "try_block h p r s =
    (s\<lparr>history := history s @
         [assistant_payload (or_else (field data (ustr ''reply'')) (JStr fallback_reply))],
       conversationEl := filter (\<lambda>c. node_id c \<noteq> p) (conversationEl s)\<rparr>,
     Some (no_primitive h))"
  using assms(2,3)
  by (simp add: try_block_data [OF assms(1)] Let_def removeChild_def renderMessage_assistant)

lemma try_block_rendered:
  assumes "success_data r = Some data" and "p \<in> node_id ` set (conversationEl s)"
    and "text_of (Number_toString h)
           (Some (or_else (field data (ustr ''reply'')) (JStr fallback_reply))) = Some t"
  shows "try_block h p r s =
    after_reply h data (or_else (field data (ustr ''reply'')) (JStr fallback_reply))
      (persistHistory h
         (s\<lparr>history := history s @
              [assistant_payload (or_else (field data (ustr ''reply'')) (JStr fallback_reply))],
            conversationEl := filter (\<lambda>c. node_id c \<noteq> p) (conversationEl s) @
              [\<lparr> node_id = next_node s, node_classes = [ustr ''assistant''],
                 node_avatar = ustr ''J'', node_content = t \<rparr>],
            next_node := Suc (next_node s)\<rparr>))"
  using assms(2,3)
  by (simp add: try_block_data [OF assms(1)] Let_def removeChild_def renderMessage_assistant)

lemma catch_block_present:
  assumes "p \<in> node_id ` set (conversationEl s)"
  shows "catch_block h p e s =
    (s\<lparr>conversationEl := filter (\<lambda>c. node_id c \<noteq> p) (conversationEl s) @
          [\<lparr> node_id = next_node s, node_classes = [ustr ''assistant''],
             node_avatar = ustr ''J'', node_content = apology \<rparr>],
        next_node := Suc (next_node s),
        intelEl := [ustr ''Error encountered.'', error_description e]\<rparr>, None)"
  using assms pushIntel_strings [of "[ustr ''Error encountered.'', error_description e]" h]
  by (simp add: catch_block_def removeChild_def renderMessage_apology)

lemma catch_block_absent:
  "p \<notin> node_id ` set (conversationEl s) \<Longrightarrow> \<exists>e'. catch_block h p e s = (s, Some e')"
  by (simp add: catch_block_def removeChild_def)

text \<open>
  What the rest of the function leaves alone, whatever is thrown: the voice flag, the
  history up to the assistant's entry, the calls of \<open>speak\<close> up to the one of the reply,
  and the stored value up to one write of the last 20 entries.
\<close>

lemma try_block_keeps:
  "voiceEnabled (fst (try_block h p r s)) = voiceEnabled s \<and>
   history (fst (try_block h p r s)) =
     history s @ (case success_data r of
                    None \<Rightarrow> []
                  | Some data \<Rightarrow>
                      [assistant_payload
                         (or_else (field data (ustr ''reply'')) (JStr fallback_reply))]) \<and>
   (localStorage (fst (try_block h p r s)) storage_key = localStorage s storage_key \<or>
    localStorage (fst (try_block h p r s)) storage_key
      = Some (Json_text (JArr (slice_last 20 (history (fst (try_block h p r s)))))))"
proof (cases "success_data r")
  case None
  then obtain e where "try_block h p r s = (s, Some e)"
    using try_block_failure by blast
  with None show ?thesis by simp
next
  case (Some data)
  let ?c = "or_else (field data (ustr ''reply'')) (JStr fallback_reply)"
  show ?thesis
  proof (cases "p \<in> node_id ` set (conversationEl s)")
    case False
    with Some obtain e where
      "try_block h p r s = (s\<lparr>history := history s @ [assistant_payload ?c]\<rparr>, Some e)"
      using try_block_absent by blast
    with Some show ?thesis by simp
  next
    case True
    show ?thesis
    proof (cases "text_of (Number_toString h) (Some ?c)")
      case None
      from try_block_opaque [OF Some True None] Some show ?thesis by simp
    next
      case (Some t)
      let ?s3 = "s\<lparr>history := history s @ [assistant_payload ?c],
            conversationEl := filter (\<lambda>c. node_id c \<noteq> p) (conversationEl s) @
              [\<lparr> node_id = next_node s, node_classes = [ustr ''assistant''],
                 node_avatar = ustr ''J'', node_content = t \<rparr>],
            next_node := Suc (next_node s)\<rparr>"
      have "backstage (fst (try_block h p r s)) = backstage (persistHistory h ?s3)"
        using after_reply_backstage [of h data ?c "persistHistory h ?s3"]
        by (simp add: try_block_rendered [OF \<open>success_data r = Some data\<close> True Some])
      thus ?thesis
        using \<open>success_data r = Some data\<close>
        by (auto simp: backstage_def persistHistory_update)
    qed
  qed
qed

lemma catch_block_keeps:
  "voiceEnabled (fst (catch_block h p e s)) = voiceEnabled s \<and>
   history (fst (catch_block h p e s)) = history s \<and>
   localStorage (fst (catch_block h p e s)) = localStorage s \<and>
   speak_calls (fst (catch_block h p e s)) = speak_calls s"
proof (cases "p \<in> node_id ` set (conversationEl s)")
  case True
  then show ?thesis by (simp add: catch_block_present)
next
  case False
  then obtain e' where "catch_block h p e s = (s, Some e')"
    using catch_block_absent by blast
  then show ?thesis by simp
qed


lemma resume_cases:
  obtains "fst (sendCommand_resume h p r s) = finally_block (fst (try_block h p r s))"
  | e where "fst (sendCommand_resume h p r s)
      = finally_block (fst (catch_block h p e (fst (try_block h p r s))))"
proof -
  obtain s1 x where t: "try_block h p r s = (s1, x)"
    by (cases "try_block h p r s")
  show ?thesis
  proof (cases x)
    case None
    with t that(1) show ?thesis by (simp add: sendCommand_resume_def)
  next
    case (Some e)
    with t that(2) [of e] show ?thesis
      by (simp add: sendCommand_resume_def split: prod.splits)
  qed
qed

lemma resume_frame:
  "voiceEnabled (fst (sendCommand_resume h p r s)) = voiceEnabled s \<and>
   history (fst (sendCommand_resume h p r s)) =
     history s @ (case success_data r of
                    None \<Rightarrow> []
                  | Some data \<Rightarrow>
                      [assistant_payload
                         (or_else (field data (ustr ''reply'')) (JStr fallback_reply))])"
proof (cases rule: resume_cases [of h p r s])
  case 1
  then show ?thesis
    using try_block_keeps [of h p r s] by (simp add: finally_block_update)
next
  case (2 e)
  then show ?thesis
    using try_block_keeps [of h p r s] catch_block_keeps [of h p e "fst (try_block h p r s)"]
    by (simp add: finally_block_update)
qed

text \<open>The stored value after the rest of the function: as it was, or the last 20 of the history.\<close>

lemma resume_storage:
  "localStorage (fst (sendCommand_resume h p r s)) storage_key = localStorage s storage_key \<or>
   localStorage (fst (sendCommand_resume h p r s)) storage_key
     = Some (Json_text (JArr (slice_last 20 (history (fst (sendCommand_resume h p r s))))))"
proof (cases rule: resume_cases [of h p r s])
  case 1
  then show ?thesis
    using try_block_keeps [of h p r s] by (auto simp: finally_block_update)
next
  case (2 e)
  then show ?thesis
    using try_block_keeps [of h p r s] catch_block_keeps [of h p e "fst (try_block h p r s)"]
    by (auto simp: finally_block_update)
qed



lemma in_flightD:
  assumes "in_flight h m s0 p s"
  shows "\<not> isProcessing s0" "trim m \<noteq> []" "isProcessing s"
    "p = Suc (next_node s0)"
    "history s = history s0 @ [user_payload (trim m)]"
    "next_node s = Suc (Suc (next_node s0))"
    "conversationEl s = conversationEl s0 @
       [\<lparr> node_id = next_node s0, node_classes = [ustr ''user''],
          node_avatar = ustr ''You'', node_content = trim m \<rparr>,
        \<lparr> node_id = Suc (next_node s0),
          node_classes = [ustr ''assistant'', ustr ''thinking''],
          node_avatar = ustr ''J'', node_content = placeholder_content \<rparr>]"
    "localStorage s = localStorage (persistHistory h (s0\<lparr>history := history s0 @ [user_payload (trim m)]\<rparr>))"
    "intelEl s = intelEl s0" "fetches s = fetches s0 @ [assistant_request (trim m) (history s)]"
    "speak_calls s = speak_calls s0" "synth_calls s = synth_calls s0"
proof -
  obtain s1 where b: "sendCommand h m s0 = (s1, Awaiting p)"
    using assms by (auto simp: in_flight_def split: prod.splits)
  hence g: "\<not> isProcessing s0" "trim m \<noteq> []"
    by (rule awaiting_guard)+
  show "\<not> isProcessing s0" "trim m \<noteq> []" by fact+
  show "isProcessing s" using assms by (auto simp: in_flight_def split: prod.splits)
  have *: "history s = history s1" "conversationEl s = conversationEl s1"
    "next_node s = next_node s1" "localStorage s = localStorage s1" "intelEl s = intelEl s1"
    "fetches s = fetches s1" "speak_calls s = speak_calls s1" "synth_calls s = synth_calls s1"
    using assms b by (auto simp: in_flight_def)
  from b have s1: "s1 = fst (sendCommand h m s0)" and p: "Awaiting p = snd (sendCommand h m s0)"
    by simp_all
  show "p = Suc (next_node s0)"
    using p unfolding sendCommand_started [OF g]
    by (simp add: Let_def persistHistory_update)
  show "history s = history s0 @ [user_payload (trim m)]"
    unfolding * s1 sendCommand_started [OF g] by (simp add: Let_def persistHistory_update)
  thus "fetches s = fetches s0 @ [assistant_request (trim m) (history s)]"
    unfolding * s1 sendCommand_started [OF g] by (simp add: Let_def persistHistory_update)
  show "next_node s = Suc (Suc (next_node s0))"
    unfolding * s1 sendCommand_started [OF g] by (simp add: Let_def persistHistory_update)
  show "conversationEl s = conversationEl s0 @
       [\<lparr> node_id = next_node s0, node_classes = [ustr ''user''],
          node_avatar = ustr ''You'', node_content = trim m \<rparr>,
        \<lparr> node_id = Suc (next_node s0),
          node_classes = [ustr ''assistant'', ustr ''thinking''],
          node_avatar = ustr ''J'', node_content = placeholder_content \<rparr>]"
    unfolding * s1 sendCommand_started [OF g] by (simp add: Let_def persistHistory_update)
  show "localStorage s = localStorage (persistHistory h (s0\<lparr>history := history s0 @ [user_payload (trim m)]\<rparr>))"
    unfolding * s1 sendCommand_started [OF g] by (simp add: Let_def persistHistory_update)
  show "intelEl s = intelEl s0"
    unfolding * s1 sendCommand_started [OF g] by (simp add: Let_def persistHistory_update)
  show "speak_calls s = speak_calls s0"
    unfolding * s1 sendCommand_started [OF g] by (simp add: Let_def persistHistory_update)
  show "synth_calls s = synth_calls s0"
    unfolding * s1 sendCommand_started [OF g] by (simp add: Let_def persistHistory_update)
qed

lemma in_flight_begin:
  assumes "sendCommand h m s0 = (s1, Awaiting p)"
  shows "in_flight h m s0 p s1"
proof -
  from assms have g: "\<not> isProcessing s0" "trim m \<noteq> []"
    by (rule awaiting_guard)+
  from assms have "s1 = fst (sendCommand h m s0)" by simp
  hence "isProcessing s1"
    unfolding sendCommand_started [OF g] by (simp add: Let_def persistHistory_update)
  with assms show ?thesis
    by (simp add: in_flight_def)
qed

lemma in_flight_placeholder:
  "in_flight h m s0 p s \<Longrightarrow> p \<in> node_id ` set (conversationEl s)"
  by (simp add: in_flightD(4,7))

lemma trim_status_report: "trim (ustr ''status report'') = ustr ''status report''"
  by (simp add: trim_def ustr_def is_space_def)

lemma listening_page_facts:
  "\<not> isProcessing listening_page" "voiceEnabled listening_page"
  "next_node listening_page = 0" "conversationEl listening_page = []"
  "history listening_page = []" "statusIndicator listening_page = ustr ''idle''"
  by (simp_all add: listening_page_def toggleVoiceInput_def host0_def page0_def page_def)

lemma asked_in_flight: "in_flight host0 (ustr ''status report'') listening_page 1 asked_page"
proof -
  have "trim (ustr ''status report'') \<noteq> []"
    by (simp add: trim_status_report)
  hence "snd (sendCommand host0 (ustr ''status report'') listening_page) = Awaiting 1"
    by (simp add: sendCommand_started listening_page_facts Let_def persistHistory_update)
  hence "sendCommand host0 (ustr ''status report'') listening_page = (asked_page, Awaiting 1)"
    by (simp add: asked_page_def prod_eq_iff)
  thus ?thesis
    by (rule in_flight_begin)
qed

lemma asked_page_facts:
  "isProcessing asked_page" "voiceEnabled asked_page"
  "statusIndicator asked_page = ustr ''thinking''" "recognition asked_page \<noteq> None"
proof -
  have t: "trim (ustr ''status report'') \<noteq> []"
    by (simp add: trim_status_report)
  show "isProcessing asked_page" "voiceEnabled asked_page"
    "statusIndicator asked_page = ustr ''thinking''" "recognition asked_page \<noteq> None"
    unfolding asked_page_def sendCommand_started [OF listening_page_facts(1) t]
    by (simp_all add: Let_def persistHistory_update listening_page_facts)
       (simp add: listening_page_def toggleVoiceInput_def host0_def page0_def page_def)
qed

lemma recogniser_events_keep_thinking:
  assumes "isProcessing s" and "statusIndicator s = ustr ''thinking''"
  shows "statusIndicator (recognition_onstart s) = ustr ''thinking''"
    and "statusIndicator (recognition_onend s) = ustr ''thinking''"
    and "statusIndicator (recognition_onerror s) = ustr ''thinking''"
    and "\<not> voiceEnabled s \<Longrightarrow> statusIndicator (toggleVoiceInput h s) = ustr ''thinking''"
    and "statusIndicator (fst (sendCommand h m s)) = ustr ''thinking''"
  using assms
  by (simp_all add: recognition_onstart_def recognition_onend_def recognition_onerror_def
      toggleVoiceInput_def updateStatus_def Let_def sendCommand_busy)

lemma typed_in_flight: "in_flight host0 (ustr ''status report'') page0 1 typed_page"
proof -
  have p: "\<not> isProcessing page0" "next_node page0 = 0"
    by (simp_all add: page0_def page_def)
  have "trim (ustr ''status report'') \<noteq> []"
    by (simp add: trim_status_report)
  hence "snd (sendCommand host0 (ustr ''status report'') page0) = Awaiting 1"
    by (simp add: sendCommand_started p Let_def persistHistory_update)
  hence "sendCommand host0 (ustr ''status report'') page0 = (typed_page, Awaiting 1)"
    by (simp add: typed_page_def prod_eq_iff)
  thus ?thesis
    by (rule in_flight_begin)
qed

lemma page0_facts:
  "ids_fresh page0" "history page0 = []" "conversationEl page0 = []" "next_node page0 = 0"
  "\<not> voiceEnabled page0" "speak_calls page0 = []" "stored_entries page0 = []"
  by (simp_all add: page0_def page_def ids_fresh_def stored_entries_def)



lemma or_else_falsy: "\<not> truthy_opt v \<Longrightarrow> or_else v d = d"
  by (cases v) simp_all

lemma trim_placeholder: "trim placeholder_content = placeholder_content"
  by (simp add: trim_def placeholder_content_def is_space_def)

lemma echo_in_flight: "in_flight host0 placeholder_content page0 1 echo_page"
proof -
  have p: "\<not> isProcessing page0" "next_node page0 = 0"
    by (simp_all add: page0_def page_def)
  have "trim placeholder_content \<noteq> []"
    by (simp add: trim_placeholder) (simp add: placeholder_content_def)
  hence "snd (sendCommand host0 placeholder_content page0) = Awaiting 1"
    by (simp add: sendCommand_started p Let_def persistHistory_update)
  hence "sendCommand host0 placeholder_content page0 = (echo_page, Awaiting 1)"
    by (simp add: echo_page_def prod_eq_iff)
  thus ?thesis
    by (rule in_flight_begin)
qed

lemma placeholder_like_payloads [simp]:
  "placeholder_like (user_payload t) \<longleftrightarrow> t = placeholder_content"
  "placeholder_like (assistant_payload c) \<longleftrightarrow> c = JStr placeholder_content"
  by (simp_all add: placeholder_like_def user_payload_def assistant_payload_def)

lemma fallback_not_placeholder: "fallback_reply \<noteq> placeholder_content"
  by (simp add: fallback_reply_def placeholder_content_def ustr_def)

lemma or_else_placeholder:
  "v \<noteq> Some (JStr placeholder_content) \<Longrightarrow>
   or_else v (JStr fallback_reply) \<noteq> JStr placeholder_content"
  by (cases v) (auto simp: fallback_not_placeholder)

lemma list_ex_slice_last: "\<not> list_ex P xs \<Longrightarrow> \<not> list_ex P (slice_last n xs)"
  using set_slice_last [of n xs] by (auto simp: list_ex_iff)

lemma suffix_length_unique:
  "suffix xs zs \<Longrightarrow> suffix ys zs \<Longrightarrow> length xs = length ys \<Longrightarrow> xs = ys"
  by (auto simp: suffix_def)

text \<open>The handlers that can run while the fetch is out keep the page in flight.\<close>

lemma in_flight_kept:
  assumes "in_flight h m s0 p s"
  shows "in_flight h m s0 p (toggleVoiceInput h s)"
    and "in_flight h m s0 p (recognition_onstart s)"
    and "in_flight h m s0 p (recognition_onend s)"
    and "in_flight h m s0 p (recognition_onerror s)"
    and "in_flight h m s0 p (s\<lparr>input_value := typed\<rparr>)"
    and "form_submit h s = (s, Returned)"
    and "in_flight h m s0 p (fst (recognition_onresult h heard s))"
    and "in_flight h m s0 p (fst (command_click h command s))"
  using assms
  by (auto simp: in_flight_def toggleVoiceInput_def recognition_onstart_def
      recognition_onend_def recognition_onerror_def updateStatus_def Let_def
      form_submit_def recognition_onresult_def command_click_def sendCommand_busy
      split: prod.splits)

text \<open>The identities of the elements stay below the next one.\<close>

lemma ids_fresh_in_flight:
  assumes "ids_fresh s0" and "in_flight h m s0 p s"
  shows "ids_fresh s"
  using assms(1)
  by (auto simp: ids_fresh_def list_all_iff in_flightD(6,7) [OF assms(2)] intro: less_SucI)

text \<open>Replaying a stored array.\<close>

lemma renderMessage_replayable:
  assumes "replayable h item"
  shows "\<exists>n s'. renderMessage h item s = Inr (n, s') \<and> history s' = history s"
proof -
  from assms obtain token tx where
    "item \<noteq> JNull" "class_token h (field item (ustr ''role'')) = Some token"
    "token \<noteq> []" "\<not> list_ex is_ascii_space token"
    "text_of (Number_toString h) (field item (ustr ''content'')) = Some tx"
    by (auto simp: replayable_def split: option.splits)
  thus ?thesis
    by (simp add: renderMessage_def Let_def)
qed

lemma renderMessage_throws:
  assumes "\<not> replayable h item"
  shows "\<exists>e. renderMessage h item s = Inl e"
proof (cases "item = JNull")
  case True
  then show ?thesis by (simp add: renderMessage_def)
next
  case False
  note item = this
  show ?thesis
  proof (cases "class_token h (field item (ustr ''role''))")
    case None
    with item show ?thesis by (simp add: renderMessage_def Let_def)
  next
    case (Some token)
    show ?thesis
    proof (cases "token = [] \<or> list_ex is_ascii_space token")
      case True
      with item Some show ?thesis by (auto simp: renderMessage_def Let_def)
    next
      case False
      with assms item Some
      have "text_of (Number_toString h) (field item (ustr ''content'')) = None"
        by (simp add: replayable_def)
      with item Some False show ?thesis by (simp add: renderMessage_def Let_def)
    qed
  qed
qed

lemma forEach_render_result:
  "forEach_render h items s = (s', x) \<Longrightarrow>
     history s' = history s \<and> (x = None \<longleftrightarrow> list_all (replayable h) items)"
proof (induction items arbitrary: s)
  case Nil
  then show ?case by simp
next
  case (Cons item items)
  show ?case
  proof (cases "replayable h item")
    case True
    then obtain n s1 where r: "renderMessage h item s = Inr (n, s1)" "history s1 = history s"
      using renderMessage_replayable by blast
    with Cons.prems have "forEach_render h items s1 = (s', x)" by simp
    from Cons.IH [OF this] r True show ?thesis by simp
  next
    case False
    then obtain e where "renderMessage h item s = Inl e"
      using renderMessage_throws by blast
    with Cons.prems False show ?thesis by auto
  qed
qed

lemma text_of_ToString_opt:
  "text_of num v \<noteq> None \<Longrightarrow> ToString_opt num v \<noteq> None"
proof (cases v)
  case None
  then show ?thesis by simp
next
  case (Some j)
  assume "text_of num v \<noteq> None"
  with Some show ?thesis by (cases j) simp_all
qed

lemma restore_line_replayable: "replayable h entry \<Longrightarrow> restore_line h entry \<noteq> None"
  using text_of_ToString_opt [of "Number_toString h" "field entry (ustr ''content'')"]
  by (simp add: replayable_def restore_line_def)

lemma those_map_Some:
  "list_all (\<lambda>x. f x \<noteq> None) xs \<Longrightarrow> \<exists>ys. those (map f xs) = Some ys"
  by (induction xs) auto

lemma pushIntel_backstage: "backstage (fst (pushIntel h items s)) = backstage s"
proof -
  have "backstage (s\<lparr>intelEl := []\<rparr>) = backstage s"
    by (simp add: backstage_def)
  thus ?thesis
    using forEach_item_backstage [of h items "s\<lparr>intelEl := []\<rparr>"]
    by (simp add: pushIntel_def)
qed

text \<open>The history that \<open>restoreHistory\<close> leaves when an array is stored.\<close>

lemma restore_array:
  assumes "\<not> getItem_throws h" and "localStorage s storage_key = Some (Json_text (JArr xs))"
  shows "history (restoreHistory h s) = (if list_all (replayable h) xs then xs else [])"
proof -
  let ?s1 = "s\<lparr>history := xs\<rparr>"
  obtain s2 x where f: "forEach_render h xs ?s1 = (s2, x)"
    by (cases "forEach_render h xs ?s1")
  from forEach_render_result [OF f]
  have h2: "history s2 = xs" and x: "x = None \<longleftrightarrow> list_all (replayable h) xs"
    by simp_all
  have unfold: "restoreHistory h s =
      (case (s2, x) of
         (s2, Some e) \<Rightarrow> s2\<lparr>history := []\<rparr>
       | (s2, None) \<Rightarrow>
           if history s2 \<noteq> []
           then (case those (map (restore_line h) (slice_last 3 (history s2))) of
                   None \<Rightarrow> s2\<lparr>history := []\<rparr>
                 | Some lines \<Rightarrow>
                     (case pushIntel h
                        (map JStr
                           ([ustr ''Historical context restored.'',
                             ustr ''Loaded '' @ nat_toString (length (history s2))
                               @ ustr '' transmissions.'',
                             ustr ''Jarvis is ready to continue the mission.'']
                            @ lines)) s2 of
                        (s3, Some e) \<Rightarrow> s3\<lparr>history := []\<rparr>
                      | (s3, None) \<Rightarrow> s3))
           else s2)"
    using assms by (simp add: restoreHistory_def JSON_parse_def Let_def f)
  show ?thesis
  proof (cases x)
    case (Some e)
    with x unfold show ?thesis by auto
  next
    case None
    with x have all: "list_all (replayable h) xs" by simp
    show ?thesis
    proof (cases "xs = []")
      case True
      with None unfold h2 show ?thesis by simp
    next
      case False
      have "list_all (\<lambda>e. restore_line h e \<noteq> None) (slice_last 3 xs)"
        using all set_slice_last [of 3 xs] restore_line_replayable [of h]
        by (auto simp: list_all_iff)
      then obtain lines where l: "those (map (restore_line h) (slice_last 3 xs)) = Some lines"
        using those_map_Some by blast
      let ?items = "[ustr ''Historical context restored.'',
                     ustr ''Loaded '' @ nat_toString (length xs) @ ustr '' transmissions.'',
                     ustr ''Jarvis is ready to continue the mission.''] @ lines"
      have "pushIntel h (map JStr ?items) s2 = (s2\<lparr>intelEl := ?items\<rparr>, None)"
        by (rule pushIntel_strings) simp
      with None False unfold h2 l all show ?thesis
        by simp
    qed
  qed
qed

lemma undefined_token: "class_token h None = Some (ustr ''undefined'')"
  by (simp add: class_token_def)

text \<open>The identities of the elements stay below the next one.\<close>

lemma ids_fresh_cong:
  "conversationEl s' = conversationEl s \<Longrightarrow> next_node s' = next_node s \<Longrightarrow>
   ids_fresh s' = ids_fresh s"
  by (simp add: ids_fresh_def)

lemma ids_fresh_backstage: "backstage s' = backstage s \<Longrightarrow> ids_fresh s' = ids_fresh s"
  by (simp add: backstage_def ids_fresh_def)

lemma ids_fresh_append:
  "ids_fresh s \<Longrightarrow>
   ids_fresh (s\<lparr>conversationEl := filter P (conversationEl s) @ [c\<lparr>node_id := next_node s\<rparr>],
               next_node := Suc (next_node s)\<rparr>)"
  by (auto simp: ids_fresh_def list_all_iff intro: less_SucI)

lemma renderMessage_appends:
  assumes "renderMessage h item s = Inr (n, s')"
  shows "n = next_node s \<and> next_node s' = Suc (next_node s) \<and>
     (\<exists>c. node_id c = next_node s \<and> conversationEl s' = conversationEl s @ [c])"
proof (cases "replayable h item")
  case False
  then obtain e where "renderMessage h item s = Inl e"
    using renderMessage_throws by blast
  with assms show ?thesis by simp
next
  case True
  then obtain token tx where
    "item \<noteq> JNull" "class_token h (field item (ustr ''role'')) = Some token"
    "token \<noteq> []" "\<not> list_ex is_ascii_space token"
    "text_of (Number_toString h) (field item (ustr ''content'')) = Some tx"
    by (auto simp: replayable_def split: option.splits)
  with assms show ?thesis
    by (auto simp: renderMessage_def Let_def)
qed

lemma ids_fresh_render:
  assumes "ids_fresh s" and "renderMessage h item s = Inr (n, s')"
  shows "ids_fresh s'"
proof -
  from renderMessage_appends [OF assms(2)]
  obtain c where "next_node s' = Suc (next_node s)" "node_id c = next_node s"
    "conversationEl s' = conversationEl s @ [c]"
    by blast
  with assms(1) show ?thesis
    by (auto simp: ids_fresh_def list_all_iff intro: less_SucI)
qed

lemma ids_fresh_forEach:
  "ids_fresh s \<Longrightarrow> forEach_render h items s = (s', x) \<Longrightarrow> ids_fresh s'"
proof (induction items arbitrary: s)
  case Nil
  then show ?case by simp
next
  case (Cons item items)
  show ?case
  proof (cases "renderMessage h item s")
    case (Inl e)
    with Cons.prems show ?thesis by simp
  next
    case (Inr b)
    obtain n s1 where b: "b = (n, s1)" by (cases b)
    with Inr Cons.prems(1) have "ids_fresh s1"
      using ids_fresh_render by blast
    moreover from Inr b Cons.prems(2) have "forEach_render h items s1 = (s', x)"
      by simp
    ultimately show ?thesis by (rule Cons.IH)
  qed
qed

lemma ids_fresh_try:
  assumes "ids_fresh s"
  shows "ids_fresh (fst (try_block h p r s))"
proof (cases "success_data r")
  case None
  then obtain e where "try_block h p r s = (s, Some e)"
    using try_block_failure by blast
  with assms show ?thesis by simp
next
  case (Some data)
  let ?c = "or_else (field data (ustr ''reply'')) (JStr fallback_reply)"
  show ?thesis
  proof (cases "p \<in> node_id ` set (conversationEl s)")
    case False
    with Some obtain e where
      "try_block h p r s = (s\<lparr>history := history s @ [assistant_payload ?c]\<rparr>, Some e)"
      using try_block_absent by blast
    with assms show ?thesis by (simp add: ids_fresh_def)
  next
    case True
    show ?thesis
    proof (cases "text_of (Number_toString h) (Some ?c)")
      case None
      from try_block_opaque [OF Some True None] assms show ?thesis
        by (auto simp: ids_fresh_def list_all_iff)
    next
      case (Some t)
      let ?s3 = "s\<lparr>history := history s @ [assistant_payload ?c],
            conversationEl := filter (\<lambda>c. node_id c \<noteq> p) (conversationEl s) @
              [\<lparr> node_id = next_node s, node_classes = [ustr ''assistant''],
                 node_avatar = ustr ''J'', node_content = t \<rparr>],
            next_node := Suc (next_node s)\<rparr>"
      have "backstage (fst (try_block h p r s)) = backstage (persistHistory h ?s3)"
        using after_reply_backstage [of h data ?c "persistHistory h ?s3"]
        by (simp add: try_block_rendered [OF \<open>success_data r = Some data\<close> True Some])
      hence "ids_fresh (fst (try_block h p r s)) = ids_fresh (persistHistory h ?s3)"
        by (rule ids_fresh_backstage)
      moreover have "ids_fresh (persistHistory h ?s3)"
        using assms
        by (auto simp: persistHistory_update ids_fresh_def list_all_iff intro: less_SucI)
      ultimately show ?thesis by simp
    qed
  qed
qed

lemma ids_fresh_catch:
  assumes "ids_fresh s"
  shows "ids_fresh (fst (catch_block h p e s))"
proof (cases "p \<in> node_id ` set (conversationEl s)")
  case True
  with assms show ?thesis
    by (auto simp: catch_block_present ids_fresh_def list_all_iff intro: less_SucI)
next
  case False
  then obtain e' where "catch_block h p e s = (s, Some e')"
    using catch_block_absent by blast
  with assms show ?thesis by simp
qed

lemma ids_fresh_resume:
  assumes "ids_fresh s"
  shows "ids_fresh (fst (sendCommand_resume h p r s))"
proof (cases rule: resume_cases [of h p r s])
  case 1
  with ids_fresh_try [OF assms, of h p r] show ?thesis
    by (simp add: finally_block_update ids_fresh_def)
next
  case (2 e)
  with ids_fresh_catch [OF ids_fresh_try [OF assms, of h p r], of h p e] show ?thesis
    by (simp add: finally_block_update ids_fresh_def)
qed

lemma ids_fresh_restore:
  assumes "ids_fresh s"
  shows "ids_fresh (restoreHistory h s)"
proof -
  have tail: "ids_fresh (case forEach_render h xs (s\<lparr>history := xs\<rparr>) of
              (s2, Some e) \<Rightarrow> s2\<lparr>history := []\<rparr>
            | (s2, None) \<Rightarrow>
                if history s2 \<noteq> []
                then (case those (map (restore_line h) (slice_last 3 (history s2))) of
                        None \<Rightarrow> s2\<lparr>history := []\<rparr>
                      | Some lines \<Rightarrow>
                          (case pushIntel h (k s2 lines) s2 of
                             (s3, Some e) \<Rightarrow> s3\<lparr>history := []\<rparr>
                           | (s3, None) \<Rightarrow> s3))
                else s2)" for xs and k :: "app \<Rightarrow> jsstring list \<Rightarrow> json list"
  proof -
    obtain s2 x where r: "forEach_render h xs (s\<lparr>history := xs\<rparr>) = (s2, x)"
      by (cases "forEach_render h xs (s\<lparr>history := xs\<rparr>)")
    have "ids_fresh (s\<lparr>history := xs\<rparr>)"
      using assms by (simp add: ids_fresh_def)
    hence s2: "ids_fresh s2"
      using r by (rule ids_fresh_forEach)
    have p: "ids_fresh (fst (pushIntel h items s2))" for items
      using s2 ids_fresh_backstage [OF pushIntel_backstage [of h items s2]] by simp
    have q: "ids_fresh (case pushIntel h items s2 of
                       (s3, Some e) \<Rightarrow> s3\<lparr>history := []\<rparr> | (s3, None) \<Rightarrow> s3)" for items
      using p [of items]
      by (cases "pushIntel h items s2") (auto simp: ids_fresh_def split: option.splits)
    have e: "ids_fresh (s2\<lparr>history := []\<rparr>)"
      using s2 by (simp add: ids_fresh_def)
    show ?thesis
    proof (cases x)
      case (Some e')
      with e show ?thesis by (simp add: r)
    next
      case None
      show ?thesis
      proof (cases "those (map (restore_line h) (slice_last 3 (history s2)))")
        case None
        with \<open>x = None\<close> e s2 show ?thesis by (simp add: r)
      next
        case (Some lines)
        with \<open>x = None\<close> q [of "k s2 lines"] s2 show ?thesis by (simp add: r)
      qed
    qed
  qed
  have reset: "ids_fresh (s\<lparr>history := []\<rparr>)"
    using assms by (simp add: ids_fresh_def)
  show ?thesis
  proof (cases "getItem_throws h")
    case True
    with reset show ?thesis by (simp add: restoreHistory_def)
  next
    case False
    show ?thesis
    proof (cases "localStorage s storage_key")
      case None
      with False assms show ?thesis by (simp add: restoreHistory_def)
    next
      case (Some raw)
      show ?thesis
      proof (cases raw)
        case (Other_text t)
        with False Some assms reset show ?thesis
          by (simp add: restoreHistory_def JSON_parse_def)
      next
        case (Json_text v)
        have "restoreHistory h s =
          (case forEach_render h (case v of JArr xs \<Rightarrow> xs | _ \<Rightarrow> [])
                  (s\<lparr>history := (case v of JArr xs \<Rightarrow> xs | _ \<Rightarrow> [])\<rparr>) of
              (s2, Some e) \<Rightarrow> s2\<lparr>history := []\<rparr>
            | (s2, None) \<Rightarrow>
                if history s2 \<noteq> []
                then (case those (map (restore_line h) (slice_last 3 (history s2))) of
                        None \<Rightarrow> s2\<lparr>history := []\<rparr>
                      | Some lines \<Rightarrow>
                          (case pushIntel h
                             (map JStr
                                ([ustr ''Historical context restored.'',
                                  ustr ''Loaded '' @ nat_toString (length (history s2))
                                    @ ustr '' transmissions.'',
                                  ustr ''Jarvis is ready to continue the mission.'']
                                 @ lines)) s2 of
                             (s3, Some e) \<Rightarrow> s3\<lparr>history := []\<rparr>
                           | (s3, None) \<Rightarrow> s3))
                else s2)"
          using False Some Json_text by (simp add: restoreHistory_def JSON_parse_def Let_def)
        thus ?thesis
          using tail [where xs = "case v of JArr xs \<Rightarrow> xs | _ \<Rightarrow> []" and
              k = "\<lambda>s2 lines. map JStr
                                ([ustr ''Historical context restored.'',
                                  ustr ''Loaded '' @ nat_toString (length (history s2))
                                    @ ustr '' transmissions.'',
                                  ustr ''Jarvis is ready to continue the mission.'']
                                 @ lines)"]
          by simp
      qed
    qed
  qed
qed

lemma nominal_success:
  "success_data nominal_reply =
     Some (JObj [(ustr ''reply'', JStr (ustr ''All systems nominal.'')),
                 (ustr ''intent'', JStr (ustr ''status''))])"
  by (simp add: success_data_def nominal_reply_def ok_def)

lemma nominal_presentable:
  "presentable h (JObj [(ustr ''reply'', JStr (ustr ''All systems nominal.'')),
                        (ustr ''intent'', JStr (ustr ''status''))])"
  by (simp add: presentable_def actions_shown_def intent_shown_def)

lemma stubborn_success: "success_data stubborn_reply = Some stubborn_data"
  by (simp add: success_data_def stubborn_reply_def stubborn_data_def ok_def)

lemma stubborn_not_presentable: "\<not> presentable h stubborn_data"
  by (simp add: presentable_def intent_shown_def stubborn_data_def)

text \<open>
  A response that keeps to the types of the service's contract is shown without
  throwing.
\<close>

lemma typed_data_presentable:
  assumes "field data (ustr ''reply'') = None \<or> (\<exists>t. field data (ustr ''reply'') = Some (JStr t))"
    and "field data (ustr ''actions'') = None \<or>
         (\<exists>ts. field data (ustr ''actions'') = Some (JArr (map JStr ts)))"
    and "field data (ustr ''intent'') = None \<or> (\<exists>t. field data (ustr ''intent'') = Some (JStr t))"
  shows "presentable h data"
  using assms
  by (auto simp: presentable_def actions_shown_def intent_shown_def list_all_iff)

text \<open>The calls of \<open>speak\<close> and the conversation after an ok response with data.\<close>

lemma resume_speak_calls:
  assumes "success_data r = Some data" and "p \<in> node_id ` set (conversationEl s)"
  shows "speak_calls (fst (sendCommand_resume h p r s)) =
    speak_calls s @
      (if presentable h data \<and> field data (ustr ''speak'') \<noteq> Some (JBool False)
       then [or_else (field data (ustr ''reply'')) (JStr fallback_reply)] else [])"
proof -
  let ?c = "or_else (field data (ustr ''reply'')) (JStr fallback_reply)"
  have t: "speak_calls (fst (try_block h p r s)) =
    speak_calls s @
      (if presentable h data \<and> field data (ustr ''speak'') \<noteq> Some (JBool False)
       then [?c] else [])"
  proof (cases "text_of (Number_toString h) (Some ?c)")
    case None
    from try_block_opaque [OF assms None] None show ?thesis
      by (simp add: presentable_def)
  next
    case (Some t)
    let ?s3 = "s\<lparr>history := history s @ [assistant_payload ?c],
          conversationEl := filter (\<lambda>c. node_id c \<noteq> p) (conversationEl s) @
            [\<lparr> node_id = next_node s, node_classes = [ustr ''assistant''],
               node_avatar = ustr ''J'', node_content = t \<rparr>],
          next_node := Suc (next_node s)\<rparr>"
    from after_reply_backstage [of h data ?c "persistHistory h ?s3"] Some show ?thesis
      by (simp add: try_block_rendered [OF assms Some] presentable_def persistHistory_update)
  qed
  show ?thesis
  proof (cases rule: resume_cases [of h p r s])
    case 1
    with t show ?thesis by (simp add: finally_block_update)
  next
    case (2 e)
    with t catch_block_keeps [of h p e "fst (try_block h p r s)"] show ?thesis
      by (simp add: finally_block_update)
  qed
qed

lemma resume_rendered:
  assumes "success_data r = Some data" and "p \<in> node_id ` set (conversationEl s)"
    and "p \<noteq> next_node s"
    and "text_of (Number_toString h)
           (Some (or_else (field data (ustr ''reply'')) (JStr fallback_reply))) = Some t"
  shows "conversationEl (fst (sendCommand_resume h p r s)) =
    filter (\<lambda>c. node_id c \<noteq> p) (conversationEl s) @
      [\<lparr> node_id = next_node s, node_classes = [ustr ''assistant''],
         node_avatar = ustr ''J'', node_content = t \<rparr>]"
    and "localStorage (fst (sendCommand_resume h p r s)) =
      localStorage (persistHistory h
        (s\<lparr>history := history s @
           [assistant_payload (or_else (field data (ustr ''reply'')) (JStr fallback_reply))]\<rparr>))"
proof -
  let ?c = "or_else (field data (ustr ''reply'')) (JStr fallback_reply)"
  let ?s3 = "s\<lparr>history := history s @ [assistant_payload ?c],
        conversationEl := filter (\<lambda>c. node_id c \<noteq> p) (conversationEl s) @
          [\<lparr> node_id = next_node s, node_classes = [ustr ''assistant''],
             node_avatar = ustr ''J'', node_content = t \<rparr>],
        next_node := Suc (next_node s)\<rparr>"
  have "backstage (fst (try_block h p r s)) = backstage (persistHistory h ?s3)"
    using after_reply_backstage [of h data ?c "persistHistory h ?s3"]
    by (simp add: try_block_rendered [OF assms(1,2,4)])
  hence c: "conversationEl (fst (try_block h p r s)) = conversationEl ?s3"
    and l: "localStorage (fst (try_block h p r s)) = localStorage (persistHistory h ?s3)"
    by (simp_all add: backstage_def persistHistory_update)
  have both: "conversationEl (fst (sendCommand_resume h p r s)) = conversationEl ?s3 \<and>
    localStorage (fst (sendCommand_resume h p r s)) = localStorage (persistHistory h ?s3)"
  proof (cases rule: resume_cases [of h p r s])
    case 1
    with c l show ?thesis by (simp add: finally_block_update)
  next
    case (2 e)
    from c assms(3) have "p \<notin> node_id ` set (conversationEl (fst (try_block h p r s)))"
      by auto
    then obtain e' where
      "catch_block h p e (fst (try_block h p r s)) = (fst (try_block h p r s), Some e')"
      using catch_block_absent by blast
    with 2 c l show ?thesis by (simp add: finally_block_update)
  qed
  from both show "conversationEl (fst (sendCommand_resume h p r s)) =
    filter (\<lambda>c. node_id c \<noteq> p) (conversationEl s) @
      [\<lparr> node_id = next_node s, node_classes = [ustr ''assistant''],
         node_avatar = ustr ''J'', node_content = t \<rparr>]"
    by simp
  from both show "localStorage (fst (sendCommand_resume h p r s)) =
      localStorage (persistHistory h (s\<lparr>history := history s @ [assistant_payload ?c]\<rparr>))"
    by (simp add: persistHistory_update)
qed

lemma opaque_entry_resets: "history (restoreHistory host0 opaque_page) = []"
proof -
  have "\<not> replayable host0
      (JObj [(ustr ''role'', JStr (ustr ''user'')),
             (ustr ''content'', JObj [(ustr ''toString'', JStr (ustr ''x''))])])"
    by (simp add: replayable_def)
  moreover have "\<not> getItem_throws host0"
    by (simp add: host0_def)
  ultimately show ?thesis
    using restore_array [of host0 opaque_page]
    by (simp add: opaque_page_def)
qed

section \<open>The guard of \<open>sendCommand\<close>\<close>

text \<open>
  Claim C9. A string whose trimmed form is empty, which is a string of white space only
  (the empty string is one), makes \<open>sendCommand\<close> return at its guard: the page after
  the call is the page before it, so no request is recorded, nothing is added to the
  history, the conversation, the notices or the storage area, and nothing is awaited.
\<close>

theorem blank_command_is_dropped:
  "(trim message = [] \<longleftrightarrow> (\<forall>c\<in>set message. is_space c)) \<and>
   (trim message = [] \<longrightarrow> sendCommand h message s = (s, Returned))"
  by (simp add: trim_Nil_iff [symmetric] sendCommand_blank)

theorem blank_command_is_dropped_witness:
  "trim (ustr ''   '') = [] \<and> sendCommand host0 (ustr ''   '') page0 = (page0, Returned)"
proof -
  have "\<forall>c\<in>set (ustr ''   ''). is_space c"
    by (simp add: ustr_def is_space_def)
  thus ?thesis
    using blank_command_is_dropped [of "ustr ''   ''" host0 page0] by blast
qed

text \<open>
  Claim C3. A call that gets as far as its fetch leaves \<open>isProcessing\<close> set, and a call
  made on any page where \<open>isProcessing\<close> is set returns at the guard with the page as it
  was: no request, and no change of history, status, conversation or input value.
\<close>

theorem second_submit_is_noop:
  "(sendCommand h first s0 = (s1, Awaiting p) \<longrightarrow>
      isProcessing s1 \<and> sendCommand h second s1 = (s1, Returned)) \<and>
   (isProcessing s \<longrightarrow> sendCommand h second s = (s, Returned))"
proof -
  have "isProcessing s1" if "sendCommand h first s0 = (s1, Awaiting p)"
  proof -
    from that have g: "\<not> isProcessing s0" "trim first \<noteq> []"
      by (rule awaiting_guard)+
    show ?thesis
      using that unfolding sendCommand_started [OF g]
      by (auto simp: Let_def persistHistory_def)
  qed
  thus ?thesis
    by (simp add: sendCommand_busy)
qed

theorem second_submit_is_noop_witness:
  "sendCommand host0 (ustr ''again'') (fst (sendCommand host0 (ustr ''status report'') page0))
     = (fst (sendCommand host0 (ustr ''status report'') page0), Returned)"
proof -
  have t: "trim (ustr ''status report'') \<noteq> []"
    by (simp add: trim_def ustr_def is_space_def)
  have p: "\<not> isProcessing page0"
    by (simp add: page0_def page_def)
  obtain s1 q where s1: "sendCommand host0 (ustr ''status report'') page0 = (s1, Awaiting q)"
    using sendCommand_started [OF p t, of host0] by (simp add: Let_def)
  show ?thesis
    using second_submit_is_noop [of host0 "ustr ''status report''" page0 s1 q "ustr ''again''"] s1
    by simp
qed

section \<open>The status while and after a request\<close>




text \<open>
  Claim C2 fails on the voice button. With voice input on and a request in flight, a
  press of the button leaves the request in flight and sets the status to ``idle'' with
  copy ``Voice Link Offline''. The recogniser's own handlers do keep ``thinking'' while
  \<open>isProcessing\<close> is set (\<open>recogniser_events_keep_thinking\<close>).
\<close>

theorem voice_toggle_ends_thinking:
  "in_flight host0 (ustr ''status report'') listening_page 1 (toggleVoiceInput host0 asked_page) \<and>
   statusIndicator (toggleVoiceInput host0 asked_page) = ustr ''idle'' \<and>
   statusCopy (toggleVoiceInput host0 asked_page) = ustr ''Voice Link Offline''"
proof -
  have r: "recognition_supported host0" by (simp add: host0_def)
  have "toggleVoiceInput host0 asked_page =
      asked_page\<lparr>recognizer_calls := recognizer_calls asked_page @ [Rec_stop],
                 voiceEnabled := False, voiceToggle_active := False,
                 statusIndicator := ustr ''idle'', statusCopy := ustr ''Voice Link Offline''\<rparr>"
    using asked_page_facts r by (simp add: toggleVoiceInput_def updateStatus_def Let_def)
  thus ?thesis
    using asked_in_flight by (simp add: in_flight_def split: prod.splits)
qed

section \<open>A failed request\<close>



section \<open>A successful request\<close>

text \<open>
  Claim C8, as the script has it. For an ok response with data that the success path
  shows without throwing (the content of the reply, the actions and the intent have a
  string conversion, as they have when they keep to the types of the service's
  contract), \<open>speak\<close> is called once more, with the content of the assistant's entry,
  unless the data's \<open>speak\<close> is the literal \<open>false\<close>, in which case it is not called; an
  absent \<open>speak\<close> and every other value get the call. When showing the reply throws,
  \<open>speak\<close> is not called.
\<close>

theorem speech_unless_literal_false:
  assumes "in_flight h message s0 p s" and "success_data r = Some data"
  shows "(let s' = fst (sendCommand_resume h p r s);
              reply = or_else (field data (ustr ''reply'')) (JStr fallback_reply)
          in (presentable h data \<and> field data (ustr ''speak'') \<noteq> Some (JBool False) \<longrightarrow>
                speak_calls s' = speak_calls s @ [reply]) \<and>
             (presentable h data \<and> field data (ustr ''speak'') = Some (JBool False) \<longrightarrow>
                speak_calls s' = speak_calls s) \<and>
             (\<not> presentable h data \<longrightarrow> speak_calls s' = speak_calls s) \<and>
             history s' = history s @ [assistant_payload reply])"
  using resume_speak_calls [OF assms(2) in_flight_placeholder [OF assms(1)], of h]
    resume_frame [of h p r s] assms(2)
  by (simp add: Let_def)

theorem speech_unless_literal_false_witness:
  "speak_calls (fst (sendCommand_resume host0 1 nominal_reply typed_page))
     = [JStr (ustr ''All systems nominal.'')] \<and>
   history (fst (sendCommand_resume host0 1 nominal_reply typed_page))
     = [user_payload (ustr ''status report''),
        assistant_payload (JStr (ustr ''All systems nominal.''))]"
  using speech_unless_literal_false [OF typed_in_flight nominal_success]
    in_flightD(5,11) [OF typed_in_flight] nominal_presentable [of host0]
  by (simp add: Let_def page0_facts trim_status_report)

text \<open>
  Claim C8 as worded fails: an ok response whose intent is an object with a
  \<^verbatim>\<open>toString\<close> property has no \<open>speak\<close> field, and \<open>speak\<close> is not called, because the
  template literal of the status copy throws first.
\<close>

theorem unspoken_reply_counterexample:
  "in_flight host0 (ustr ''status report'') page0 1 typed_page \<and>
   success_data stubborn_reply = Some stubborn_data \<and>
   field stubborn_data (ustr ''speak'') = None \<and>
   speak_calls typed_page = [] \<and>
   speak_calls (fst (sendCommand_resume host0 1 stubborn_reply typed_page)) = []"
  using resume_speak_calls [OF stubborn_success in_flight_placeholder [OF typed_in_flight], of host0]
    in_flightD(11) [OF typed_in_flight] typed_in_flight stubborn_success
    stubborn_not_presentable [of host0]
  by (simp add: page0_facts) (simp add: stubborn_data_def)

text \<open>
  Claim C10. For an ok response whose data has no truthy \<open>reply\<close> (absent, the empty
  string, zero, \<open>false\<close>, \<open>null\<close>), the entry added to the history and the element added
  to the conversation have the content ``I'm here.'', and so has the one call of
  \<open>speak\<close>, which is made unless the data's \<open>speak\<close> is the literal \<open>false\<close> or showing
  the actions or the intent has thrown.
\<close>

theorem falsy_reply_falls_back:
  assumes "in_flight h message s0 p s" and "success_data r = Some data"
    and "\<not> truthy_opt (field data (ustr ''reply''))"
  shows "(let s' = fst (sendCommand_resume h p r s)
          in history s' = history s @ [assistant_payload (JStr (ustr ''I'm here.''))] \<and>
             node_content (last (conversationEl s')) = ustr ''I'm here.'' \<and>
             speak_calls s' = speak_calls s @
               (if actions_shown h (field data (ustr ''actions'')) \<and>
                   intent_shown h (field data (ustr ''intent'')) \<and>
                   field data (ustr ''speak'') \<noteq> Some (JBool False)
                then [JStr (ustr ''I'm here.'')] else []))"
proof -
  note d = in_flightD [OF assms(1)]
  have p: "p \<in> node_id ` set (conversationEl s)"
    using assms(1) by (rule in_flight_placeholder)
  have c: "or_else (field data (ustr ''reply'')) (JStr fallback_reply) = JStr (ustr ''I'm here.'')"
    by (simp add: or_else_falsy [OF assms(3)] fallback_reply_def)
  have n: "p \<noteq> next_node s"
    by (simp add: d(4,6))
  have t: "text_of (Number_toString h)
      (Some (or_else (field data (ustr ''reply'')) (JStr fallback_reply))) = Some (ustr ''I'm here.'')"
    by (simp add: c)
  show ?thesis
    using resume_frame [of h p r s] resume_speak_calls [OF assms(2) p, of h]
      resume_rendered(1) [OF assms(2) p n t] assms(2) c
    by (simp add: Let_def presentable_def)
qed

theorem falsy_reply_falls_back_witness:
  "field (JObj [(ustr ''reply'', JStr [])]) (ustr ''reply'') = Some (JStr []) \<and>
   history (fst (sendCommand_resume host0 1 empty_reply typed_page))
     = [user_payload (ustr ''status report''),
        assistant_payload (JStr (ustr ''I'm here.''))] \<and>
   speak_calls (fst (sendCommand_resume host0 1 empty_reply typed_page))
     = [JStr (ustr ''I'm here.'')]"
proof -
  have s: "success_data empty_reply = Some (JObj [(ustr ''reply'', JStr [])])"
    by (simp add: success_data_def empty_reply_def ok_def)
  have f: "\<not> truthy_opt (field (JObj [(ustr ''reply'', JStr [])]) (ustr ''reply''))"
    by simp
  show ?thesis
    using falsy_reply_falls_back [OF typed_in_flight s f] in_flightD(5,11) [OF typed_in_flight]
    by (simp add: Let_def page0_facts trim_status_report actions_shown_def intent_shown_def)
qed

section \<open>The placeholder\<close>

text \<open>
  Claim C6, as the script has it. The placeholder is rendered and never pushed onto the
  history: a request adds the user's entry, whose content is the trimmed input, and on
  success the assistant's entry, whose content is the reply or the fallback. So when
  neither the history nor the stored array had an entry with the placeholder's content
  before the call, the trimmed input is not that content and the reply is not that
  content, then after the request neither the history nor the stored array has such an
  entry.
\<close>

theorem placeholder_only_if_echoed:
  assumes "in_flight h message s0 p s"
    and "\<not> list_ex placeholder_like (history s0)"
    and "\<not> list_ex placeholder_like (stored_entries s0)"
    and "trim message \<noteq> placeholder_content"
    and "case success_data r of
           None \<Rightarrow> True
         | Some data \<Rightarrow> field data (ustr ''reply'') \<noteq> Some (JStr placeholder_content)"
  shows "(let s' = fst (sendCommand_resume h p r s)
          in \<not> list_ex placeholder_like (history s') \<and>
             \<not> list_ex placeholder_like (stored_entries s'))"
proof -
  let ?s' = "fst (sendCommand_resume h p r s)"
  note d = in_flightD [OF assms(1)]
  have hs: "\<not> list_ex placeholder_like (history s)"
    using assms(2,4) by (simp add: d(5))
  have h': "\<not> list_ex placeholder_like (history ?s')"
    using hs assms(5) resume_frame [of h p r s]
    by (auto simp: or_else_placeholder split: option.splits)
  have "\<not> list_ex placeholder_like (stored_entries s)"
  proof (cases "setItem_throws h (Json_text (JArr (slice_last 20 (history s))))")
    case True
    hence "localStorage s storage_key = localStorage s0 storage_key"
      by (simp add: d(8) persistHistory_update d(5))
    thus ?thesis
      using assms(3) by (simp add: stored_entries_def)
  next
    case False
    hence "localStorage s storage_key = Some (Json_text (JArr (slice_last 20 (history s))))"
      by (simp add: d(8) persistHistory_update d(5))
    thus ?thesis
      using hs by (simp add: stored_entries_def list_ex_slice_last)
  qed
  moreover from resume_storage [of h p r s]
  have "stored_entries ?s' = stored_entries s \<or> stored_entries ?s' = slice_last 20 (history ?s')"
    by (auto simp: stored_entries_def)
  ultimately have "\<not> list_ex placeholder_like (stored_entries ?s')"
    using h' by (auto simp: list_ex_slice_last)
  with h' show ?thesis
    by (simp add: Let_def)
qed

theorem placeholder_only_if_echoed_witness:
  "\<not> list_ex placeholder_like (history (fst (sendCommand_resume host0 1 nominal_reply typed_page))) \<and>
   \<not> list_ex placeholder_like
       (stored_entries (fst (sendCommand_resume host0 1 nominal_reply typed_page)))"
proof -
  have "trim (ustr ''status report'') \<noteq> placeholder_content"
    by (simp add: trim_status_report) (simp add: placeholder_content_def ustr_def)
  moreover have "case success_data nominal_reply of
           None \<Rightarrow> True
         | Some data \<Rightarrow> field data (ustr ''reply'') \<noteq> Some (JStr placeholder_content)"
    by (simp add: nominal_success) (simp add: placeholder_content_def ustr_def)
  ultimately show ?thesis
    using placeholder_only_if_echoed [OF typed_in_flight, of nominal_reply]
    by (simp add: page0_facts Let_def)
qed

text \<open>
  Claim C6 as worded fails: the user may submit the three bullets themselves, and the
  history and the stored array then hold an entry whose content is the placeholder's.
\<close>

theorem echoed_placeholder_counterexample:
  "in_flight host0 placeholder_content page0 1 echo_page \<and>
   history (fst (sendCommand_resume host0 1 nominal_reply echo_page))
     = [user_payload placeholder_content,
        assistant_payload (JStr (ustr ''All systems nominal.''))] \<and>
   field (user_payload placeholder_content) (ustr ''content'') = Some (JStr placeholder_content) \<and>
   stored_entries (fst (sendCommand_resume host0 1 nominal_reply echo_page))
     = [user_payload placeholder_content,
        assistant_payload (JStr (ustr ''All systems nominal.''))]"
proof -
  note d = in_flightD [OF echo_in_flight]
  have p: "1 \<in> node_id ` set (conversationEl echo_page)"
    using echo_in_flight by (rule in_flight_placeholder)
  have n: "\<not> setItem_throws host0 b" for b
    by (simp add: host0_def)
  have f: "(1::nat) \<noteq> next_node echo_page"
    by (simp add: d(6) page0_facts)
  have t: "text_of (Number_toString host0)
      (Some (or_else (field (JObj [(ustr ''reply'', JStr (ustr ''All systems nominal.'')),
                                   (ustr ''intent'', JStr (ustr ''status''))]) (ustr ''reply''))
               (JStr fallback_reply))) = Some (ustr ''All systems nominal.'')"
    by simp
  have "history (fst (sendCommand_resume host0 1 nominal_reply echo_page))
     = [user_payload placeholder_content,
        assistant_payload (JStr (ustr ''All systems nominal.''))]"
    using resume_frame [of host0 1 nominal_reply echo_page]
    by (simp add: nominal_success d(5) page0_facts trim_placeholder)
  moreover have "stored_entries (fst (sendCommand_resume host0 1 nominal_reply echo_page))
     = [user_payload placeholder_content,
        assistant_payload (JStr (ustr ''All systems nominal.''))]"
    unfolding stored_entries_def resume_rendered(2) [OF nominal_success p f t]
    by (simp add: persistHistory_update n d(5) page0_facts trim_placeholder slice_last_def)
  ultimately show ?thesis
    using echo_in_flight by (simp add: user_payload_def)
qed

section \<open>Persistence\<close>

text \<open>
  Claim C4. What \<open>persistHistory\<close> hands to the store is the JSON text of an array
  that is a suffix of the history and has \<open>min 20 n\<close> entries, \<open>n\<close> being the length of
  the history, so at most 20. The value goes under the key, and nothing else changes;
  when the store refuses it, nothing changes at all. This holds on every page, hence
  after any sequence of submissions.
\<close>

theorem persist_writes_recent_suffix:
  "\<exists>xs. length xs = min 20 (length (history s)) \<and> length xs \<le> 20 \<and>
         suffix xs (history s) \<and>
         persistHistory h s =
           (if setItem_throws h (JSON_stringify (JArr xs)) then s
            else s\<lparr>localStorage := (localStorage s)(storage_key \<mapsto> JSON_stringify (JArr xs))\<rparr>)"
proof (intro exI conjI)
  show "length (slice_last 20 (history s)) = min 20 (length (history s))"
    by (rule length_slice_last)
  thus "length (slice_last 20 (history s)) \<le> 20"
    by simp
  show "suffix (slice_last 20 (history s)) (history s)"
    by (rule slice_last_suffix)
  show "persistHistory h s =
      (if setItem_throws h (JSON_stringify (JArr (slice_last 20 (history s)))) then s
       else s\<lparr>localStorage := (localStorage s)(storage_key \<mapsto>
              JSON_stringify (JArr (slice_last 20 (history s))))\<rparr>)"
    by (simp add: persistHistory_def Let_def)
qed

theorem persist_writes_recent_suffix_witness:
  "length (history busy_page) = 25 \<and>
   stored_entries (persistHistory host0 busy_page) = drop 5 (history busy_page)"
proof -
  have l: "length (history busy_page) = 25"
    by (simp add: busy_page_def)
  obtain xs where xs: "length xs = min 20 (length (history busy_page))"
      "suffix xs (history busy_page)"
      "persistHistory host0 busy_page =
         (if setItem_throws host0 (JSON_stringify (JArr xs)) then busy_page
          else busy_page\<lparr>localStorage :=
                 (localStorage busy_page)(storage_key \<mapsto> JSON_stringify (JArr xs))\<rparr>)"
    using persist_writes_recent_suffix [of busy_page host0] by blast
  have "suffix (drop 5 (history busy_page)) (history busy_page)"
    by (rule suffix_drop)
  with xs(1,2) l have "xs = drop 5 (history busy_page)"
    by (intro suffix_length_unique [of xs "history busy_page"]) simp_all
  with xs(3) l show ?thesis
    by (simp add: stored_entries_def host0_def JSON_stringify_def)
qed

text \<open>
  Claim C7, as the script has it. \<open>restoreHistory\<close> leaves the history as it is (empty
  when the page starts) when the key is absent or holds the empty string. It resets the
  history to empty when reading the store throws, when the value is no JSON text, when
  it is JSON but not an array, and when replaying an entry of the array throws: a
  \<^verbatim>\<open>null\<close> entry, a role without a string conversion or one that prints as an empty
  class token or one with white space, a content without a string conversion. In every
  other case the history becomes the stored array as it is: the entries are not checked
  for a role and a content.
\<close>

theorem restore_loads_any_array:
  "history (restoreHistory h s) =
     (if getItem_throws h then []
      else case localStorage s storage_key of
        None \<Rightarrow> history s
      | Some (Other_text t) \<Rightarrow> if t = [] then history s else []
      | Some (Json_text v) \<Rightarrow>
          (case v of
             JArr xs \<Rightarrow> if list_all (replayable h) xs then xs else []
           | _ \<Rightarrow> []))"
proof (cases "getItem_throws h")
  case True
  then show ?thesis by (simp add: restoreHistory_def)
next
  case False
  note g = this
  show ?thesis
  proof (cases "localStorage s storage_key")
    case None
    with g show ?thesis by (simp add: restoreHistory_def)
  next
    case (Some raw)
    show ?thesis
    proof (cases raw)
      case (Other_text t)
      with g Some show ?thesis by (simp add: restoreHistory_def JSON_parse_def)
    next
      case (Json_text v)
      show ?thesis
      proof (cases "\<exists>xs. v = JArr xs")
        case True
        then obtain xs where "v = JArr xs" by blast
        with g Some Json_text restore_array [of h s xs] show ?thesis
          by simp
      next
        case False
        hence "(case v of JArr xs \<Rightarrow> xs | _ \<Rightarrow> []) = []"
          by (cases v) simp_all
        moreover from False
        have "(case v of JArr xs \<Rightarrow> if list_all (replayable h) xs then xs else [] | _ \<Rightarrow> []) = []"
          by (cases v) simp_all
        ultimately show ?thesis
          using g Some Json_text
          by (simp add: restoreHistory_def JSON_parse_def Let_def)
      qed
    qed
  qed
qed

theorem restore_loads_any_array_witness:
  "history (restoreHistory host0 kept_page) =
     [user_payload (ustr ''status report''),
      assistant_payload (JStr (ustr ''All systems nominal.''))]"
proof -
  have "replayable host0 (user_payload (ustr ''status report''))"
    "replayable host0 (assistant_payload (JStr (ustr ''All systems nominal.'')))"
    by (simp_all add: replayable_def user_payload_def assistant_payload_def class_token_def)
  thus ?thesis
    using restore_loads_any_array [of host0 kept_page]
    by (simp add: kept_page_def host0_def)
qed

text \<open>
  Claim C7 as worded fails: the stored array \<^verbatim>\<open>[5]\<close> is no sequence of messages, and it
  is loaded.
\<close>

theorem unshaped_entry_counterexample:
  "localStorage stray_page storage_key = Some (Json_text (JArr [JNum 5])) \<and>
   history (restoreHistory host0 stray_page) = [JNum 5]"
proof -
  have "replayable host0 (JNum 5)"
    by (simp add: replayable_def undefined_token)
  moreover have "\<not> getItem_throws host0"
    by (simp add: host0_def)
  ultimately show ?thesis
    using restore_array [of host0 stray_page "[JNum 5]"]
    by (simp add: stray_page_def)
qed

end
